theory Spec2Isabelle
  imports Main
begin

section \<open>JavaScript strings and values\<close>

text \<open>
  A JavaScript string is modelled as a \<^typ>\<open>string\<close> whose characters are the code
  units below 256. \<open>String.prototype.trim\<close> strips white space and line terminators
  from both ends; below 256 these are the code units 9 to 13, 32 and 160.
\<close>

definition is_ws :: "char \<Rightarrow> bool" where
  "is_ws c = (of_char c \<in> {9, 10, 11, 12, 13, 32, 160 :: nat})"

definition trim :: "string \<Rightarrow> string" where
  "trim s = rev (dropWhile is_ws (rev (dropWhile is_ws s)))"

text \<open>\<open>s.includes(w)\<close>: \<open>w\<close> occurs in \<open>s\<close> as a contiguous run.\<close>

fun starts_with :: "string \<Rightarrow> string \<Rightarrow> bool" where
  "starts_with s [] = True"
| "starts_with [] (w # ws) = False"
| "starts_with (c # cs) (w # ws) = (c = w \<and> starts_with cs ws)"

fun includes_str :: "string \<Rightarrow> string \<Rightarrow> bool" where
  "includes_str [] w = (w = [])"
| "includes_str (c # cs) w = (starts_with (c # cs) w \<or> includes_str cs w)"

text \<open>
  \<open>s.replaceAll(pat, rep)\<close> for a non-empty string pattern: matches are replaced from
  left to right and do not overlap. The replacement is taken literally (JavaScript
  would expand \<open>$$\<close>, \<open>$&\<close> and the like inside it; a workspace folder holding such a
  pattern is outside this model).
\<close>

fun replaceAll :: "string \<Rightarrow> string \<Rightarrow> string \<Rightarrow> string" where
  "replaceAll pat rep [] = []"
| "replaceAll pat rep (c # cs) =
     (if pat \<noteq> [] \<and> starts_with (c # cs) pat
      then rep @ replaceAll pat rep (drop (length pat) (c # cs))
      else c # replaceAll pat rep cs)"

text \<open>
  \<open>String(n)\<close> for a number: numbers are modelled as integers (ports), printed in
  decimal with a leading minus sign when negative.
\<close>

definition digit_char :: "nat \<Rightarrow> char" where
  "digit_char d = ''0123456789'' ! d"

fun digits :: "nat \<Rightarrow> string" where
  "digits n = (if n < 10 then [digit_char n] else digits (n div 10) @ [digit_char (n mod 10)])"

declare digits.simps [simp del]

definition String_num :: "int \<Rightarrow> string" where
  "String_num i = (if i < 0 then CHR ''-'' # digits (nat (- i)) else digits (nat i))"

text \<open>\<open>xs.join(" ")\<close>.\<close>

fun join_sp :: "string list \<Rightarrow> string" where
  "join_sp [] = []"
| "join_sp [x] = x"
| "join_sp (x # y # ys) = x @ '' '' @ join_sp (y # ys)"

text \<open>
  An optional value (\<open>undefined\<close> or \<open>null\<close> is \<^const>\<open>None\<close>). \<open>a ?? b\<close> takes \<open>b\<close>
  only when \<open>a\<close> is absent; \<open>a || b\<close> on strings also when \<open>a\<close> is the empty string;
  \<open>!!a\<close> on an optional boolean is true only for a present \<open>true\<close>.
\<close>

definition nullish :: "'a option \<Rightarrow> 'a option \<Rightarrow> 'a option" where
  "nullish a b = (case a of Some x \<Rightarrow> Some x | None \<Rightarrow> b)"

definition nullish_or :: "'a option \<Rightarrow> 'a \<Rightarrow> 'a" where
  "nullish_or a d = (case a of Some x \<Rightarrow> x | None \<Rightarrow> d)"

definition str_or :: "string option \<Rightarrow> string \<Rightarrow> string" where
  "str_or a d = (case a of Some s \<Rightarrow> (if s = [] then d else s) | None \<Rightarrow> d)"

definition truthy :: "bool option \<Rightarrow> bool" where
  "truthy a = (case a of Some b \<Rightarrow> b | None \<Rightarrow> False)"

section \<open>Configuration sources\<close>

text \<open>\<open>ExposeFileConfig\<close>: every field of the JSON file is optional.\<close>

record fileConfig =
  fc_configVersion :: "int option"
  fc_path :: "string option"
  fc_cwd :: "string option"
  fc_autoInstall :: "bool option"
  fc_composeFile :: "string option"
  fc_composeService :: "string option"
  fc_sshHost :: "string option"
  fc_sshPort :: "int option"
  fc_localHost :: "string option"
  fc_localPort :: "int option"
  fc_bindPort :: "int option"
  fc_id :: "string option"
  fc_password :: "string option"
  fc_keepAlive :: "bool option"
  fc_autoReconnect :: "bool option"
  fc_args :: "string list option"

text \<open>The empty object \<open>{}\<close> used when there is no config file.\<close>

definition no_file :: fileConfig where
  "no_file = \<lparr> fc_configVersion = None, fc_path = None, fc_cwd = None, fc_autoInstall = None,
     fc_composeFile = None, fc_composeService = None, fc_sshHost = None, fc_sshPort = None,
     fc_localHost = None, fc_localPort = None, fc_bindPort = None, fc_id = None,
     fc_password = None, fc_keepAlive = None, fc_autoReconnect = None, fc_args = None \<rparr>"

text \<open>
  The settings store: what \<open>getCfg("expose.<key>")\<close> returns for each key read by the
  code, \<^const>\<open>None\<close> when the store yields \<open>undefined\<close>.
\<close>

record settings =
  cfg_path :: "string option"
  cfg_cwd :: "string option"
  cfg_autoInstall :: "bool option"
  cfg_args :: "string list option"
  cfg_configFile :: "string option"
  cfg_autoRestartOnConfigChange :: "bool option"
  cfg_composeFile :: "string option"
  cfg_composeService :: "string option"
  cfg_sshHost :: "string option"
  cfg_sshPort :: "int option"
  cfg_localHost :: "string option"
  cfg_localPort :: "int option"
  cfg_bindPort :: "int option"
  cfg_id :: "string option"
  cfg_keepAlive :: "bool option"
  cfg_autoReconnect :: "bool option"
  cfg_legacyPassword :: "string option"

definition no_settings :: settings where
  "no_settings = \<lparr> cfg_path = None, cfg_cwd = None, cfg_autoInstall = None, cfg_args = None,
     cfg_configFile = None, cfg_autoRestartOnConfigChange = None, cfg_composeFile = None,
     cfg_composeService = None, cfg_sshHost = None, cfg_sshPort = None, cfg_localHost = None,
     cfg_localPort = None, cfg_bindPort = None, cfg_id = None, cfg_keepAlive = None,
     cfg_autoReconnect = None, cfg_legacyPassword = None \<rparr>"

section \<open>Password and argument vector\<close>

text \<open>
  \<open>getPassword\<close>: the secret store's value when it is non-empty after trimming,
  else the trimmed legacy setting.
\<close>

definition getPassword :: "string option \<Rightarrow> settings \<Rightarrow> string" where
  "getPassword secrets_get cfg =
     (let secret = str_or secrets_get ''''
      in if trim secret \<noteq> [] then trim secret
         else let legacy = trim (str_or (cfg_legacyPassword cfg) '''') in legacy)"

text \<open>The local constants of \<open>buildArgsFromConfig\<close>, one definition each.\<close>

definition sshHost_of :: "settings \<Rightarrow> fileConfig \<Rightarrow> string" where
  "sshHost_of cfg fileCfg =
     trim (nullish_or (nullish (fc_sshHost fileCfg) (cfg_sshHost cfg)) ''getexposed.io'')"

definition sshPort_of :: "settings \<Rightarrow> fileConfig \<Rightarrow> int" where
  "sshPort_of cfg fileCfg = nullish_or (nullish (fc_sshPort fileCfg) (cfg_sshPort cfg)) 2200"

definition localHost_of :: "settings \<Rightarrow> fileConfig \<Rightarrow> string" where
  "localHost_of cfg fileCfg =
     trim (nullish_or (nullish (fc_localHost fileCfg) (cfg_localHost cfg)) ''localhost'')"

definition localPort_of :: "settings \<Rightarrow> fileConfig \<Rightarrow> int" where
  "localPort_of cfg fileCfg = nullish_or (nullish (fc_localPort fileCfg) (cfg_localPort cfg)) 7500"

definition bindPort_of :: "settings \<Rightarrow> fileConfig \<Rightarrow> int" where
  "bindPort_of cfg fileCfg = nullish_or (nullish (fc_bindPort fileCfg) (cfg_bindPort cfg)) 0"

definition id_of :: "settings \<Rightarrow> fileConfig \<Rightarrow> string" where
  "id_of cfg fileCfg = trim (nullish_or (nullish (fc_id fileCfg) (cfg_id cfg)) '''')"

definition keepAlive_of :: "settings \<Rightarrow> fileConfig \<Rightarrow> bool" where
  "keepAlive_of cfg fileCfg = truthy (nullish (fc_keepAlive fileCfg) (cfg_keepAlive cfg))"

definition autoReconnect_of :: "settings \<Rightarrow> fileConfig \<Rightarrow> bool" where
  "autoReconnect_of cfg fileCfg =
     truthy (nullish (fc_autoReconnect fileCfg) (cfg_autoReconnect cfg))"

definition finalPassword_of :: "fileConfig \<Rightarrow> string \<Rightarrow> string" where
  "finalPassword_of fileCfg password =
     (let filePassword = trim (nullish_or (fc_password fileCfg) '''')
      in trim (if password \<noteq> [] then password else filePassword))"

text \<open>
  \<open>args.push(...)\<close> appends at the end; \<open>push_if\<close> is a push guarded by a condition.
  The closing loop pushes the trimmed form of each extra token that is non-empty and
  not blank.
\<close>

definition push_if :: "bool \<Rightarrow> string list \<Rightarrow> string list \<Rightarrow> string list" where
  "push_if b xs args = (if b then args @ xs else args)"

fun push_extras :: "string list \<Rightarrow> string list \<Rightarrow> string list" where
  "push_extras [] args = args"
| "push_extras (e # es) args =
     push_extras es (if e \<noteq> [] \<and> trim e \<noteq> [] then args @ [trim e] else args)"

definition buildArgsFromConfig :: "settings \<Rightarrow> fileConfig \<Rightarrow> string \<Rightarrow> string list" where
  "buildArgsFromConfig cfg fileCfg password =
     (let args = [];
          sshHost = sshHost_of cfg fileCfg;
          sshPort = sshPort_of cfg fileCfg;
          localHost = localHost_of cfg fileCfg;
          localPort = localPort_of cfg fileCfg;
          bindPort = bindPort_of cfg fileCfg;
          ident = id_of cfg fileCfg;
          keepAlive = keepAlive_of cfg fileCfg;
          autoReconnect = autoReconnect_of cfg fileCfg;
          args = push_if (sshHost \<noteq> []) [''-s'', sshHost] args;
          args = push_if (sshPort \<noteq> 0) [''-p'', String_num sshPort] args;
          args = push_if (localHost \<noteq> []) [''-ls'', localHost] args;
          args = push_if (localPort \<noteq> 0) [''-lp'', String_num localPort] args;
          args = args @ [''-bp'', String_num (if bindPort \<noteq> 0 then bindPort else 0)];
          args = push_if (ident \<noteq> []) [''-id'', ident] args;
          finalPassword = finalPassword_of fileCfg password;
          args = push_if (finalPassword \<noteq> []) [''-pw'', finalPassword] args;
          args = push_if keepAlive [''-a''] args;
          args = push_if autoReconnect [''-r''] args;
          extraFromFile = nullish_or (fc_args fileCfg) [];
          extraFromSettings = nullish_or (cfg_args cfg) []
      in push_extras (extraFromFile @ extraFromSettings) args)"

section \<open>Asset resolver (\<open>installer.ts\<close>)\<close>

text \<open>\<open>GHAsset\<close> (fields \<open>id\<close>, \<open>name\<close>, \<open>browser_download_url\<close>) and \<open>GHRelease\<close>.\<close>

record GHAsset =
  asset_id :: nat
  asset_name :: string
  browser_download_url :: string

record GHRelease =
  tag_name :: string
  assets :: "GHAsset list option"

definition osPart :: "string \<Rightarrow> string" where
  "osPart platform =
     (if platform = ''win32'' then ''windows''
      else if platform = ''darwin'' then ''darwin''
      else if platform = ''linux'' then ''linux''
      else platform)"

definition archPart :: "string \<Rightarrow> string" where
  "archPart arch =
     (if arch = ''x64'' then ''amd64''
      else if arch = ''arm64'' then ''arm64''
      else if arch = ''arm'' then ''arm''
      else arch)"

definition candidates :: "string \<Rightarrow> string \<Rightarrow> string list" where
  "candidates os ar =
     [''expose_'' @ os @ ''_'' @ ar, ''expose-'' @ os @ ''-'' @ ar, ''expose_'' @ ar @ ''_'' @ os]"

text \<open>
  \<open>/expose/i.test(s)\<close>: without the unicode flag a character at or above 128 never
  matches an ASCII letter, so the test is containment of \<open>expose\<close> up to ASCII case.
\<close>

definition to_upper :: "char \<Rightarrow> char" where
  "to_upper c =
     (case map_of (zip ''abcdefghijklmnopqrstuvwxyz'' ''ABCDEFGHIJKLMNOPQRSTUVWXYZ'') c of
        Some u \<Rightarrow> u | None \<Rightarrow> c)"

definition test_expose_i :: "string \<Rightarrow> bool" where
  "test_expose_i s = includes_str (map to_upper s) ''EXPOSE''"

text \<open>
  The body of the loop over the candidates: \<open>assets.find(exact) || assets.find(contains)\<close>.
\<close>

definition find_hit :: "string \<Rightarrow> GHAsset list \<Rightarrow> GHAsset option" where
  "find_hit want as =
     (case find (\<lambda>a. asset_name a = want) as of
        Some hit \<Rightarrow> Some hit
      | None \<Rightarrow> find (\<lambda>a. includes_str (asset_name a) want) as)"

fun pick_loop :: "string list \<Rightarrow> GHAsset list \<Rightarrow> GHAsset option" where
  "pick_loop [] as = None"
| "pick_loop (want # rest) as =
     (case find_hit want as of Some hit \<Rightarrow> Some hit | None \<Rightarrow> pick_loop rest as)"

definition pickAsset :: "string \<Rightarrow> string \<Rightarrow> GHAsset list \<Rightarrow> GHAsset option" where
  "pickAsset platform arch as =
     (let os = osPart platform; ar = archPart arch
      in case pick_loop (candidates os ar) as of
           Some hit \<Rightarrow> Some hit
         | None \<Rightarrow>
             find (\<lambda>a. test_expose_i (asset_name a) \<and> includes_str (asset_name a) os
                        \<and> includes_str (asset_name a) ar) as)"

section \<open>The world outside the extension\<close>

text \<open>
  Errors thrown by the code: the two \<open>new Error\<close> of \<open>ensureExpose\<close>, and \<open>Thrown\<close> for
  the failures of \<open>httpJson\<close>, \<open>download\<close>, the file system and \<open>spawn\<close>, with the
  message of the exception.
\<close>

datatype error = NotInstalled | NoReleaseAsset string string | Thrown string

definition message :: "error \<Rightarrow> string" where
  "message err =
     (case err of
        NotInstalled \<Rightarrow> ''Expose not installed''
      | NoReleaseAsset p a \<Rightarrow> ''No release asset found for '' @ p @ ''/'' @ a
      | Thrown m \<Rightarrow> m)"

record response =
  res_ok :: bool
  res_status :: int
  res_statusText :: string
  res_json :: "string + GHRelease"
  res_bytes :: string

datatype fs_op = Mkdir | WriteFile | ReadStream | CopyFile | Chmod

text \<open>
  Everything a command reads from its surroundings when it runs: the settings store,
  the secret store's password entry, the first workspace folder, the home directory,
  \<open>process.platform\<close> and \<open>process.arch\<close>, the \<open>bin\<close> directory under the global storage,
  \<open>path.join\<close>, the result of reading and parsing a config file (\<^const>\<open>None\<close> when
  either throws), the answer of \<open>fetch\<close> per URL (\<^const>\<open>Inl\<close> when it rejects), the
  SHA-256 digest, which file-system calls fail, whether \<open>spawn\<close> or the signalling call
  throws, and the text typed into the input box.
\<close>

record env =
  cfg :: settings
  secret :: "string option"
  workspaceFolder :: "string option"
  homedir :: string
  platform :: string
  arch :: string
  binDir :: string
  path_join :: "string \<Rightarrow> string \<Rightarrow> string"
  readFile_json :: "string \<Rightarrow> fileConfig option"
  fetch :: "string \<Rightarrow> string + response"
  sha256 :: "string \<Rightarrow> string"
  fs_fails :: "fs_op \<Rightarrow> string option"
  spawn_throws :: "string option"
  kill_throws :: bool
  showInputBox :: "string option"

datatype notice = Info string | Warning string | Error string

datatype signal = SIGINT | SIGKILL

text \<open>
  What the extension does to the outside: HTTP requests, console lines, spawned
  children (handle, command, arguments, working directory), signals sent to a child,
  \<open>taskkill /pid <pid> /t /f\<close> on a child, and timers set (delay in ms).
\<close>

datatype effect =
  Fetch string
| ConsoleLog string
| SpawnProc nat string "string list" string
| Kill nat signal
| Taskkill nat
| SetTimeout nat

record status_item =
  st_text :: string
  st_command :: string
  st_tooltip :: string

definition idle_status :: status_item where
  "idle_status = \<lparr> st_text = ''$(play) Expose'', st_command = ''expose.startAgent'',
     st_tooltip = ''Start Expose Agent'' \<rparr>"

definition running_status :: status_item where
  "running_status = \<lparr> st_text = ''$(debug-stop) Expose (running)'', st_command = ''expose.stopAgent'',
     st_tooltip = ''Stop Expose Agent'' \<rparr>"

text \<open>
  The mutable state: the module variable \<open>proc\<close> (a child is identified by the number
  of its spawn), the status bar item, the notifications shown, the output channel, the
  effects so far, the number of pending kill-escalation timers, the next child handle,
  and the managed \<open>bin\<close> directory: \<^const>\<open>None\<close> while the directory does not exist,
  else its files by name, each with its bytes and whether it is executable.
\<close>

record state =
  proc :: "nat option"
  status :: status_item
  notices :: "notice list"
  output_log :: "string list"
  effects :: "effect list"
  timers :: nat
  next_child :: nat
  bin_store :: "(string \<rightharpoonup> string \<times> bool) option"

type_synonym 'a result = "(error + 'a) \<times> state"

definition and_then :: "'a result \<Rightarrow> ('a \<Rightarrow> state \<Rightarrow> 'b result) \<Rightarrow> 'b result" where
  "and_then r f = (case r of (Inl err, s) \<Rightarrow> (Inl err, s) | (Inr x, s) \<Rightarrow> f x s)"

definition fs_call :: "env \<Rightarrow> fs_op \<Rightarrow> state \<Rightarrow> unit result" where
  "fs_call e op s = (case fs_fails e op of Some m \<Rightarrow> (Inl (Thrown m), s) | None \<Rightarrow> (Inr (), s))"

section \<open>Binary provisioner (\<open>installer.ts\<close>)\<close>

definition API_LATEST :: string where
  "API_LATEST = ''https://api.github.com/repos/getExposed/expose/releases/latest''"

definition fetch_checked :: "env \<Rightarrow> string \<Rightarrow> state \<Rightarrow> response result" where
  "fetch_checked e url s =
     (let s1 = s\<lparr>effects := effects s @ [Fetch url]\<rparr>
      in case fetch e url of
           Inl m \<Rightarrow> (Inl (Thrown m), s1)
         | Inr res \<Rightarrow>
             if \<not> res_ok res
             then (Inl (Thrown (String_num (res_status res) @ '' '' @ res_statusText res
                                @ '' for '' @ url)), s1)
             else (Inr res, s1))"

definition httpJson :: "env \<Rightarrow> string \<Rightarrow> state \<Rightarrow> GHRelease result" where
  "httpJson e url s =
     and_then (fetch_checked e url s) (\<lambda>res s1.
       case res_json res of Inl m \<Rightarrow> (Inl (Thrown m), s1) | Inr rel \<Rightarrow> (Inr rel, s1))"

text \<open>\<open>fsp.writeFile\<close>, \<open>fsp.copyFile\<close> and \<open>fsp.chmod\<close> inside the managed directory.\<close>

definition store_put :: "string \<Rightarrow> string \<times> bool \<Rightarrow> state \<Rightarrow> state" where
  "store_put n f s =
     s\<lparr>bin_store := Some ((case bin_store s of Some m \<Rightarrow> m | None \<Rightarrow> Map.empty)(n \<mapsto> f))\<rparr>"

definition store_get :: "state \<Rightarrow> string \<Rightarrow> (string \<times> bool) option" where
  "store_get s n = (case bin_store s of Some m \<Rightarrow> m n | None \<Rightarrow> None)"

definition download :: "env \<Rightarrow> string \<Rightarrow> string \<Rightarrow> state \<Rightarrow> unit result" where
  "download e url toFile s =
     and_then (fetch_checked e url s) (\<lambda>res s1.
       and_then (fs_call e WriteFile s1) (\<lambda>_ s2.
         (Inr (), store_put toFile (res_bytes res, False) s2)))"

definition sha256File :: "env \<Rightarrow> string \<Rightarrow> state \<Rightarrow> string result" where
  "sha256File e file s =
     and_then (fs_call e ReadStream s) (\<lambda>_ s1.
       case store_get s1 file of
         None \<Rightarrow> (Inl (Thrown ''ENOENT''), s1)
       | Some (bytes, _) \<Rightarrow> (Inr (sha256 e bytes), s1))"

definition copyFile :: "env \<Rightarrow> string \<Rightarrow> string \<Rightarrow> state \<Rightarrow> unit result" where
  "copyFile e src dst s =
     and_then (fs_call e CopyFile s) (\<lambda>_ s1.
       case store_get s1 src of
         None \<Rightarrow> (Inl (Thrown ''ENOENT''), s1)
       | Some (bytes, _) \<Rightarrow> (Inr (), store_put dst (bytes, False) s1))"

definition chmod755 :: "env \<Rightarrow> string \<Rightarrow> state \<Rightarrow> unit result" where
  "chmod755 e file s =
     and_then (fs_call e Chmod s) (\<lambda>_ s1.
       case store_get s1 file of
         None \<Rightarrow> (Inl (Thrown ''ENOENT''), s1)
       | Some (bytes, _) \<Rightarrow> (Inr (), store_put file (bytes, True) s1))"

text \<open>
  \<open>fsp.mkdir(binDir, {recursive: true})\<close>: nothing to do when the directory exists;
  otherwise it is created, unless the call fails.
\<close>

definition mkdir_recursive :: "env \<Rightarrow> state \<Rightarrow> unit result" where
  "mkdir_recursive e s =
     (case bin_store s of
        Some m \<Rightarrow> (Inr (), s)
      | None \<Rightarrow> and_then (fs_call e Mkdir s) (\<lambda>_ s1. (Inr (), s1\<lparr>bin_store := Some Map.empty\<rparr>)))"

text \<open>\<open>fs.existsSync\<close> on a path inside the managed directory.\<close>

definition existsSync :: "state \<Rightarrow> string \<Rightarrow> bool" where
  "existsSync s n = (store_get s n \<noteq> None)"

text \<open>The part of \<open>ensureExpose\<close> after the \<open>installIfMissing\<close> check.\<close>

definition install :: "env \<Rightarrow> string \<Rightarrow> string \<Rightarrow> state \<Rightarrow> string result" where
  "install e binName binPath s =
     and_then (httpJson e API_LATEST s) (\<lambda>rel s1.
       case pickAsset (platform e) (arch e) (nullish_or (assets rel) []) of
         None \<Rightarrow> (Inl (NoReleaseAsset (platform e) (arch e)), s1)
       | Some asset \<Rightarrow>
           let tmpFile = asset_name asset
           in and_then (download e (browser_download_url asset) tmpFile s1) (\<lambda>_ s2.
                and_then (sha256File e tmpFile s2) (\<lambda>hash s3.
                  let s4 = s3\<lparr>effects := effects s3 @
                             [ConsoleLog (''[expose-vscode] downloaded '' @ asset_name asset
                                          @ '' sha256='' @ hash)]\<rparr>
                  in and_then (copyFile e tmpFile binName s4) (\<lambda>_ s5.
                       if platform e \<noteq> ''win32''
                       then and_then (chmod755 e binName s5) (\<lambda>_ s6. (Inr binPath, s6))
                       else (Inr binPath, s5)))))"

definition ensureExpose :: "bool \<Rightarrow> env \<Rightarrow> state \<Rightarrow> string result" where
  "ensureExpose installIfMissing e s =
     (let userPath = trim (str_or (cfg_path (cfg e)) '''')
      in if userPath \<noteq> [] then (Inr userPath, s)
         else and_then (mkdir_recursive e s) (\<lambda>_ s1.
           let binName = (if platform e = ''win32'' then ''expose.exe'' else ''expose'');
               binPath = path_join e (binDir e) binName
           in if existsSync s1 binName then (Inr binPath, s1)
              else if \<not> installIfMissing then (Inl NotInstalled, s1)
              else install e binName binPath s1))"

section \<open>Configuration resolver: file, variables, binary, working directory\<close>

definition resolveVars :: "env \<Rightarrow> string \<Rightarrow> string" where
  "resolveVars e p =
     (case workspaceFolder e of
        Some folder \<Rightarrow>
          if folder \<noteq> [] \<and> includes_str p ''${workspaceFolder}''
          then replaceAll ''${workspaceFolder}'' folder p
          else p
      | None \<Rightarrow> p)"

definition readExposeConfigFile :: "env \<Rightarrow> state \<Rightarrow> fileConfig option \<times> state" where
  "readExposeConfigFile e s =
     (let cfgPath = trim (str_or (cfg_configFile (cfg e)) '''')
      in if cfgPath = [] then (None, s)
         else let resolved = resolveVars e cfgPath
              in case readFile_json e resolved of
                   Some parsed \<Rightarrow> (Some parsed, s)
                 | None \<Rightarrow>
                     (None, s\<lparr>notices := notices s @
                        [Warning (''Expose: could not read config file: '' @ resolved)]\<rparr>))"

text \<open>The \<open>userPath\<close> of \<open>resolveBinary\<close>, the \<open>setting\<close> of \<open>resolveCwd\<close>, and the
  \<open>composeFile\<close> and \<open>composeService\<close> of \<open>startAgent\<close>.\<close>

definition userPath_of :: "settings \<Rightarrow> fileConfig \<Rightarrow> string" where
  "userPath_of c fileCfg = trim (nullish_or (nullish (fc_path fileCfg) (cfg_path c)) '''')"

definition cwd_setting_of :: "settings \<Rightarrow> fileConfig \<Rightarrow> string" where
  "cwd_setting_of c fileCfg = trim (nullish_or (nullish (fc_cwd fileCfg) (cfg_cwd c)) '''')"

definition composeFile_of :: "settings \<Rightarrow> fileConfig \<Rightarrow> string" where
  "composeFile_of c fileCfg =
     trim (nullish_or (nullish (fc_composeFile fileCfg) (cfg_composeFile c)) '''')"

definition composeService_of :: "settings \<Rightarrow> fileConfig \<Rightarrow> string" where
  "composeService_of c fileCfg =
     trim (nullish_or (nullish (fc_composeService fileCfg) (cfg_composeService c)) ''expose'')"

text \<open>
  \<open>resolveBinary\<close>: the result is \<^const>\<open>None\<close> for \<open>undefined\<close>. The error of the first
  \<open>ensureExpose\<close> is swallowed by the empty \<open>catch\<close>; that of the second one propagates.
\<close>

definition resolveBinary :: "env \<Rightarrow> fileConfig \<Rightarrow> state \<Rightarrow> string option result" where
  "resolveBinary e fileCfg s =
     (let userPath = userPath_of (cfg e) fileCfg
      in if userPath \<noteq> [] then (Inr (Some (resolveVars e userPath)), s)
         else case ensureExpose False e s of
                (Inr p, s1) \<Rightarrow>
                  if p \<noteq> [] then (Inr (Some p), s1)
                  else (let autoInstall = truthy (nullish (fc_autoInstall fileCfg)
                                                     (cfg_autoInstall (cfg e)))
                        in if \<not> autoInstall then (Inr None, s1)
                           else and_then (ensureExpose True e s1) (\<lambda>p s2. (Inr (Some p), s2)))
              | (Inl _, s1) \<Rightarrow>
                  (let autoInstall = truthy (nullish (fc_autoInstall fileCfg)
                                               (cfg_autoInstall (cfg e)))
                   in if \<not> autoInstall then (Inr None, s1)
                      else and_then (ensureExpose True e s1) (\<lambda>p s2. (Inr (Some p), s2))))"

definition resolveCwd :: "env \<Rightarrow> fileConfig \<Rightarrow> string" where
  "resolveCwd e fileCfg =
     (let setting = cwd_setting_of (cfg e) fileCfg
      in if setting \<noteq> []
         then (let resolved = resolveVars e setting
               in if resolved \<noteq> [] then resolved else homedir e)
         else str_or (workspaceFolder e) (homedir e))"

section \<open>Process supervisor\<close>

text \<open>
  \<open>spawn\<close> either throws or returns a new child, which gets the next handle. Every
  child is handed to \<open>wireProcess\<close> right after its spawn, so the children with
  listeners are those below \<open>next_child\<close>.
\<close>

definition spawn :: "env \<Rightarrow> string \<Rightarrow> string list \<Rightarrow> string \<Rightarrow> state \<Rightarrow> nat result" where
  "spawn e cmd args cwd s =
     (case spawn_throws e of
        Some m \<Rightarrow> (Inl (Thrown m), s)
      | None \<Rightarrow>
          (Inr (next_child s),
           s\<lparr>effects := effects s @ [SpawnProc (next_child s) cmd args cwd],
             next_child := Suc (next_child s)\<rparr>))"

definition appendLine :: "string \<Rightarrow> state \<Rightarrow> state" where
  "appendLine l s = s\<lparr>output_log := output_log s @ [l]\<rparr>"

definition notify :: "notice \<Rightarrow> state \<Rightarrow> state" where
  "notify n s = s\<lparr>notices := notices s @ [n]\<rparr>"

definition set_idle :: "state \<Rightarrow> state" where
  "set_idle s = s\<lparr>proc := None, status := idle_status\<rparr>"

text \<open>
  The \<open>try\<close> block of \<open>startAgent\<close>. \<^const>\<open>Inl\<close> is an exception on its way to the
  \<open>catch\<close>; the early \<open>return\<close> and the normal end are both \<^const>\<open>Inr\<close>.
\<close>

definition start_try :: "env \<Rightarrow> fileConfig \<Rightarrow> string \<Rightarrow> string \<Rightarrow> state \<Rightarrow> unit result" where
  "start_try e fileCfg cwd password s =
     (let composeFile = composeFile_of (cfg e) fileCfg;
          composeService = composeService_of (cfg e) fileCfg;
          tracked = (\<lambda>child s'. (Inr (), s'\<lparr>proc := Some child, status := running_status\<rparr>))
      in if composeFile \<noteq> []
         then (let resolvedCompose = resolveVars e composeFile;
                   args = [''compose'', ''-f'', resolvedCompose, ''up'', composeService];
                   s1 = appendLine (''$ docker '' @ join_sp args) s
               in and_then (spawn e ''docker'' args cwd s1) tracked)
         else and_then (resolveBinary e fileCfg s) (\<lambda>binPath s1.
                case binPath of
                  None \<Rightarrow>
                    (Inr (), notify (Warning
                       ''Expose: no expose.path set and auto-install is disabled.'') s1)
                | Some bp \<Rightarrow>
                    if bp = []
                    then (Inr (), notify (Warning
                            ''Expose: no expose.path set and auto-install is disabled.'') s1)
                    else (let args = buildArgsFromConfig (cfg e) fileCfg password;
                              s2 = appendLine (''$ '' @ bp @ '' '' @ join_sp args) s1
                          in and_then (spawn e bp args cwd s2) tracked)))"

text \<open>
  \<open>startAgent\<close> after its guard, up to the end of the \<open>try\<close> block: the config file is
  read, the working directory and the password are resolved, the output channel is
  cleared, and the \<open>try\<close> block runs. Only the \<open>try\<close> block can throw.
\<close>

definition start_attempt :: "env \<Rightarrow> state \<Rightarrow> unit result" where
  "start_attempt e s =
     (case readExposeConfigFile e s of (fileOpt, s1) \<Rightarrow>
        (let fileCfg = nullish_or fileOpt no_file;
             cwd = resolveCwd e fileCfg;
             password = getPassword (secret e) (cfg e);
             s2 = s1\<lparr>output_log := []\<rparr>
         in start_try e fileCfg cwd password s2))"

text \<open>
  The \<open>catch\<close> block of \<open>startAgent\<close>: the error notice, \<open>proc = undefined\<close>, and the
  three assignments to the status item.
\<close>

definition start_catch :: "error \<Rightarrow> state \<Rightarrow> state" where
  "start_catch err s =
     (let s1 = notify (Error (''Expose: failed to start: '' @ message err)) s;
          s2 = s1\<lparr>proc := None\<rparr>
      in s2\<lparr>status := idle_status\<rparr>)"

definition startAgent :: "env \<Rightarrow> state \<Rightarrow> state" where
  "startAgent e s =
     (if proc s \<noteq> None then notify (Info ''Expose agent is already running.'') s
      else case start_attempt e s of
             (Inr _, s3) \<Rightarrow> s3
           | (Inl err, s3) \<Rightarrow> start_catch err s3)"

text \<open>
  \<open>stopAgent\<close>. When the signalling call throws, nothing has been sent and no timer
  is set; the \<open>finally\<close> block runs in every case. The timer's callback is
  \<open>() => proc && proc.kill("SIGKILL")\<close>: it reads the variable \<open>proc\<close> when it fires.
\<close>

definition stopAgent :: "env \<Rightarrow> state \<Rightarrow> state" where
  "stopAgent e s =
     (case proc s of
        None \<Rightarrow> s
      | Some p \<Rightarrow>
          (let s1 = (if kill_throws e then s
                     else if platform e = ''win32''
                     then s\<lparr>effects := effects s @ [Taskkill p]\<rparr>
                     else s\<lparr>effects := effects s @ [Kill p SIGINT, SetTimeout 1500],
                            timers := Suc (timers s)\<rparr>)
           in set_idle s1))"

definition timer_fires :: "state \<Rightarrow> state" where
  "timer_fires s =
     (if timers s = 0 then s
      else (let s1 = s\<lparr>timers := timers s - 1\<rparr>
            in case proc s1 of
                 None \<Rightarrow> s1
               | Some p \<Rightarrow> s1\<lparr>effects := effects s1 @ [Kill p SIGKILL]\<rparr>))"

definition restartAgent :: "env \<Rightarrow> state \<Rightarrow> state" where
  "restartAgent e s = startAgent e (stopAgent e s)"

text \<open>The \<open>onChange\<close> callback of the config watcher, and \<open>deactivate\<close>.\<close>

definition onChange :: "env \<Rightarrow> state \<Rightarrow> state" where
  "onChange e s =
     (let autoRestart = truthy (cfg_autoRestartOnConfigChange (cfg e))
      in if \<not> autoRestart then s
         else if proc s = None then s
         else restartAgent e (appendLine ''[config] changed; restarting agent...'' s))"

definition deactivate :: "env \<Rightarrow> state \<Rightarrow> state" where
  "deactivate e s = stopAgent e s"

text \<open>\<open>input.trim().split(/\s+/)\<close> on a trimmed, non-empty string.\<close>

function split_ws :: "string \<Rightarrow> string \<Rightarrow> string list" where
  "split_ws cur [] = [cur]"
| "split_ws cur (c # cs) =
     (if is_ws c then cur # split_ws [] (dropWhile is_ws cs) else split_ws (cur @ [c]) cs)"
  by pat_completeness auto
termination
  by (relation "measure (\<lambda>(cur, s). length s)")
     (auto simp: length_dropWhile_le less_Suc_eq_le)

declare split_ws.simps [simp del]

text \<open>
  \<open>runOnce\<close>: nothing is caught, so an exception of \<open>resolveBinary\<close> or \<open>spawn\<close> rejects
  the command's promise (\<^const>\<open>Inl\<close>). The child is wired but never stored in \<open>proc\<close>.
\<close>

definition runOnce :: "env \<Rightarrow> state \<Rightarrow> unit result" where
  "runOnce e s =
     (case readExposeConfigFile e s of (fileOpt, s1) \<Rightarrow>
        (let fileCfg = nullish_or fileOpt no_file;
             cwd = resolveCwd e fileCfg;
             password = getPassword (secret e) (cfg e);
             no_binary = (\<lambda>s'. (Inr (), notify (Warning
                            ''Expose: no expose.path set and auto-install is disabled.'') s'))
         in and_then (resolveBinary e fileCfg s1) (\<lambda>binPath s2.
              case binPath of
                None \<Rightarrow> no_binary s2
              | Some bp \<Rightarrow>
                  if bp = [] then no_binary s2
                  else case showInputBox e of
                         None \<Rightarrow> (Inr (), s2)
                       | Some input \<Rightarrow>
                           (let argsInput = (if trim input \<noteq> [] then split_ws [] (trim input)
                                             else []);
                                base = buildArgsFromConfig (cfg e) fileCfg password;
                                args = base @ argsInput;
                                s3 = appendLine (''$ '' @ bp @ '' '' @ join_sp args) s2
                            in and_then (spawn e bp args cwd s3)
                                 (\<lambda>child s4. (Inr (), s4))))))"

text \<open>\<open>installOrUpdate\<close> reports the outcome of \<open>ensureExpose\<close> and touches nothing else.\<close>

definition installOrUpdate :: "env \<Rightarrow> state \<Rightarrow> state" where
  "installOrUpdate e s =
     (case ensureExpose True e s of
        (Inr p, s1) \<Rightarrow> notify (Info (''Expose installed at '' @ p)) s1
      | (Inl err, s1) \<Rightarrow> notify (Error (''Failed to install Expose: '' @ message err)) s1)"

text \<open>The two listeners that \<open>wireProcess\<close> puts on a child; \<open>code\<close> may be \<open>null\<close>.\<close>

definition on_error :: "nat \<Rightarrow> string \<Rightarrow> state \<Rightarrow> state" where
  "on_error child err s =
     (let s1 = appendLine (''\<newline>[process error] '' @ err) s
      in if proc s1 = Some child then set_idle s1 else s1)"

definition on_close :: "nat \<Rightarrow> int option \<Rightarrow> state \<Rightarrow> state" where
  "on_close child code s =
     (let s1 = appendLine (''\<newline>[process exited with code ''
                 @ (case code of Some n \<Rightarrow> String_num n | None \<Rightarrow> ''null'') @ '']'') s
      in if proc s1 = Some child then set_idle s1 else s1)"

definition on_data :: "string \<Rightarrow> state \<Rightarrow> state" where
  "on_data d s = s\<lparr>output_log := output_log s @ [d]\<rparr>"

text \<open>
  What can happen to the extension, one event at a time: its commands, the config
  watcher, a kill-escalation timer firing, and the events of a wired child. (The
  commands that only write the secret store or the settings act on what \<^typ>\<open>env\<close>
  holds, not on the state.) Each command runs to its end before the next event. The
  state after \<open>activate\<close> has no process, the idle status item and no child spawned yet.
\<close>

datatype event =
  StartAgent env
| StopAgent env
| RunOnce env
| ConfigChanged env
| Deactivate env
| InstallOrUpdate env
| TimerFires
| ProcError nat string
| ProcClose nat "int option"
| ProcData nat string

definition step :: "event \<Rightarrow> state \<Rightarrow> state" where
  "step ev s =
     (case ev of
        StartAgent e \<Rightarrow> startAgent e s
      | StopAgent e \<Rightarrow> stopAgent e s
      | RunOnce e \<Rightarrow> snd (runOnce e s)
      | ConfigChanged e \<Rightarrow> onChange e s
      | Deactivate e \<Rightarrow> deactivate e s
      | InstallOrUpdate e \<Rightarrow> installOrUpdate e s
      | TimerFires \<Rightarrow> timer_fires s
      | ProcError child err \<Rightarrow> (if child < next_child s then on_error child err s else s)
      | ProcClose child code \<Rightarrow> (if child < next_child s then on_close child code s else s)
      | ProcData child d \<Rightarrow> (if child < next_child s then on_data d s else s))"

definition run :: "event list \<Rightarrow> state \<Rightarrow> state" where
  "run evs s = foldl (\<lambda>s ev. step ev s) s evs"

definition activated :: "(string \<rightharpoonup> string \<times> bool) option \<Rightarrow> state" where
  "activated store = \<lparr> proc = None, status = idle_status, notices = [], output_log = [],
     effects = [], timers = 0, next_child = 0, bin_store = store \<rparr>"

section \<open>Reference notions for the properties\<close>

text \<open>
  The supported enumeration of \<open>process.platform\<close> and \<open>process.arch\<close> pairs, the three
  asset names of a pair, and the names of all other pairs (the decoys).
\<close>

definition supported :: "(string \<times> string) list" where
  "supported = List.product [''win32'', ''darwin'', ''linux''] [''x64'', ''arm64'', ''arm'']"

definition names_for :: "string \<Rightarrow> string \<Rightarrow> string list" where
  "names_for p a = candidates (osPart p) (archPart a)"

definition decoy_names :: "string \<Rightarrow> string \<Rightarrow> string list" where
  "decoy_names p a =
     concat (map (\<lambda>(p', a'). names_for p' a') (filter (\<lambda>pa. pa \<noteq> (p, a)) supported))"

text \<open>
  No name of the pair is a decoy name; and a name of the pair occurs inside an asset
  name of the enumeration only where the two are equal.
\<close>

definition disjoint_names :: "string \<Rightarrow> string \<Rightarrow> bool" where
  "disjoint_names p a = list_all (\<lambda>c. c \<notin> set (decoy_names p a)) (names_for p a)"

definition no_clash :: "string \<Rightarrow> string \<Rightarrow> bool" where
  "no_clash p a =
     list_all (\<lambda>c. list_all (\<lambda>n. includes_str n c \<longrightarrow> n = c)
                          (names_for p a @ decoy_names p a)) (names_for p a)"

text \<open>The candidates tried before the one equal to \<open>n\<close>.\<close>

definition earlier_candidates :: "string \<Rightarrow> string \<Rightarrow> string \<Rightarrow> string list" where
  "earlier_candidates p a n = takeWhile (\<lambda>c. c \<noteq> n) (names_for p a)"

text \<open>The last resort of \<open>pickAsset\<close>, as a predicate on one asset.\<close>

definition broad_match :: "string \<Rightarrow> string \<Rightarrow> GHAsset \<Rightarrow> bool" where
  "broad_match p a d =
     (test_expose_i (asset_name d) \<and> includes_str (asset_name d) (osPart p)
      \<and> includes_str (asset_name d) (archPart a))"

text \<open>
  Two readings of "the value of the highest-precedence source", over the sources in
  order of precedence: the first that is present, and, in the words of the
  specification, the first that is present and not blank.
\<close>

fun first_present :: "string option list \<Rightarrow> string \<Rightarrow> string" where
  "first_present [] d = d"
| "first_present (None # srcs) d = first_present srcs d"
| "first_present (Some v # srcs) d = v"

fun spec_first_nonblank :: "string option list \<Rightarrow> string \<Rightarrow> string" where
  "spec_first_nonblank [] d = trim d"
| "spec_first_nonblank (None # srcs) d = spec_first_nonblank srcs d"
| "spec_first_nonblank (Some v # srcs) d =
     (if trim v \<noteq> [] then trim v else spec_first_nonblank srcs d)"

text \<open>
  What every operation other than a successful start, a stop and a terminal event of
  the tracked child leaves alone: the tracked reference and the status item; handles
  are only ever added.
\<close>

definition untouched :: "state \<Rightarrow> state \<Rightarrow> bool" where
  "untouched s s' =
     (proc s' = proc s \<and> status s' = status s \<and> timers s' = timers s
      \<and> next_child s \<le> next_child s')"

text \<open>No child spawned so far is missed: the tracked one has a handle already given out.\<close>

definition handles_ok :: "state \<Rightarrow> bool" where
  "handles_ok s = (case proc s of None \<Rightarrow> True | Some p \<Rightarrow> p < next_child s)"

text \<open>
  A Linux machine with default settings and no file config, no network and nothing
  failing; a state in which child 0 is the tracked, running agent; and the same with
  the managed binary installed.
\<close>

definition linux_env :: env where
  "linux_env = \<lparr> cfg = no_settings, secret = None, workspaceFolder = Some ''/ws'',
     homedir = ''/home/u'', platform = ''linux'', arch = ''x64'', binDir = ''/gs/bin'',
     path_join = (\<lambda>d n. d @ ''/'' @ n), readFile_json = (\<lambda>_. None),
     fetch = (\<lambda>_. Inl ''offline''), sha256 = (\<lambda>_. ''''), fs_fails = (\<lambda>_. None),
     spawn_throws = None, kill_throws = False, showInputBox = None \<rparr>"

definition tracked_state :: state where
  "tracked_state = \<lparr> proc = Some 0, status = running_status, notices = [], output_log = [],
     effects = [], timers = 0, next_child = 1, bin_store = None \<rparr>"

definition installed_store :: "(string \<rightharpoonup> string \<times> bool) option" where
  "installed_store = Some [''expose'' \<mapsto> (''binary'', True)]"

text \<open>The same machine where every file-system call fails with \<open>EACCES\<close>.\<close>

definition readonly_env :: env where
  "readonly_env = linux_env\<lparr>fs_fails := (\<lambda>op. Some ''EACCES'')\<rparr>"

text \<open>
  How one event can change the tracked reference: it stays, it is cleared, or it
  becomes a child spawned during that very event.
\<close>

definition proc_step :: "state \<Rightarrow> state \<Rightarrow> bool" where
  "proc_step s s' =
     (next_child s \<le> next_child s' \<and>
      (proc s' = proc s \<or> proc s' = None
       \<or> (\<exists>n. next_child s \<le> n \<and> n < next_child s' \<and> proc s' = Some n)))"

text \<open>The status item agrees with the tracked reference.\<close>

definition status_ok :: "state \<Rightarrow> bool" where
  "status_ok s = (status s = (if proc s = None then idle_status else running_status))"

text \<open>
  The children whose \<open>error\<close> or \<open>close\<close> listener has run during a sequence of events.
\<close>

fun terminated :: "event list \<Rightarrow> state \<Rightarrow> nat list" where
  "terminated [] s = []"
| "terminated (ev # evs) s =
     (case ev of
        ProcError child err \<Rightarrow> (if child < next_child s then [child] else [])
      | ProcClose child code \<Rightarrow> (if child < next_child s then [child] else [])
      | _ \<Rightarrow> [])
     @ terminated evs (step ev s)"

text \<open>A successful start: a child spawned since \<open>s\<close> is tracked and the status says so.\<close>

definition started :: "state \<Rightarrow> state \<Rightarrow> bool" where
  "started s s' =
     (\<exists>n. next_child s \<le> n \<and> n < next_child s' \<and> proc s' = Some n
          \<and> status s' = running_status)"

text \<open>The Linux machine where the user types \<open>--version\<close> into the input box.\<close>

definition oneoff_env :: env where
  "oneoff_env = linux_env\<lparr>showInputBox := Some ''--version''\<rparr>"

text \<open>The Linux machine where \<open>spawn\<close> throws.\<close>

definition nospawn_env :: env where
  "nospawn_env = linux_env\<lparr>spawn_throws := Some ''spawn EINVAL''\<rparr>"

text \<open>
  Assets of a release for the examples: the 32-bit ARM Linux binary under the second
  naming scheme, the 64-bit ARM and the x64 Linux binaries under the first and the
  second scheme, and a checksum file.
\<close>

definition arm_asset :: GHAsset where
  "arm_asset = \<lparr> asset_id = 1, asset_name = ''expose-linux-arm'',
     browser_download_url = ''https://example.org/expose-linux-arm'' \<rparr>"

definition arm64_decoy :: GHAsset where
  "arm64_decoy = \<lparr> asset_id = 2, asset_name = ''expose_linux_arm64'',
     browser_download_url = ''https://example.org/expose_linux_arm64'' \<rparr>"

definition arm64_hyphen_decoy :: GHAsset where
  "arm64_hyphen_decoy = \<lparr> asset_id = 3, asset_name = ''expose-linux-arm64'',
     browser_download_url = ''https://example.org/expose-linux-arm64'' \<rparr>"

definition amd64_decoy :: GHAsset where
  "amd64_decoy = \<lparr> asset_id = 4, asset_name = ''expose_linux_amd64'',
     browser_download_url = ''https://example.org/expose_linux_amd64'' \<rparr>"

definition checksums :: GHAsset where
  "checksums = \<lparr> asset_id = 5, asset_name = ''checksums.txt'',
     browser_download_url = ''https://example.org/checksums.txt'' \<rparr>"

text \<open>
  For the architecture \<open>arm\<close>: the two names of the enumeration that contain a candidate
  of the pair without being equal to it, and the check that there are no others.
\<close>

definition arm64_lookalikes :: "string \<Rightarrow> string list" where
  "arm64_lookalikes p = [''expose_'' @ osPart p @ ''_arm64'', ''expose-'' @ osPart p @ ''-arm64'']"

definition arm_clash_only :: "string \<Rightarrow> bool" where
  "arm_clash_only p =
     list_all (\<lambda>c. list_all (\<lambda>n. includes_str n c \<longrightarrow> n = c \<or> n \<in> set (arm64_lookalikes p))
                          (names_for p ''arm'' @ decoy_names p ''arm'')) (names_for p ''arm'')"

text \<open>
  The Linux machine where \<open>spawn\<close> throws and \<open>expose.path\<close> is set, so that a start gets
  as far as \<open>spawn\<close>; and a state with nothing tracked whose status item still says
  running.
\<close>

definition path_nospawn_env :: env where
  "path_nospawn_env = nospawn_env\<lparr>cfg := no_settings\<lparr>cfg_path := Some ''/opt/expose''\<rparr>\<rparr>"

definition unsynced_state :: state where
  "unsynced_state = \<lparr> proc = None, status = running_status, notices = [], output_log = [],
     effects = [], timers = 0, next_child = 1, bin_store = None \<rparr>"

section \<open>Argument vector: order and content\<close>

lemma trim_Nil: "trim [] = []"
  by (simp add: trim_def)

lemma push_extras_eq:
  "push_extras es args = args @ map trim (filter (\<lambda>e. trim e \<noteq> []) es)"
proof (induction es arbitrary: args)
  case Nil
  show ?case by simp
next
  case (Cons e es)
  have "e = [] \<Longrightarrow> trim e = []" by (simp add: trim_Nil)
  then show ?case using Cons.IH by auto
qed

lemma String_num_0: "String_num 0 = ''0''"
  by (simp add: String_num_def digits.simps digit_char_def)

text \<open>
  Claim C1. The argument vector is a function of the settings store, the file config
  and the password alone, and it is the concatenation, in this order, of: \<open>-s\<close> and the
  host when the host is non-empty; \<open>-p\<close> and the port when non-zero; \<open>-ls\<close> and the
  local host when non-empty; \<open>-lp\<close> and the local port when non-zero; \<open>-bp\<close> and the
  bind port, always; \<open>-id\<close>, \<open>-pw\<close>, \<open>-a\<close>, \<open>-r\<close> when set; the trimmed non-blank extra
  tokens of the file config, then those of the settings. With a zero or unset bind
  port the vector holds \<open>-bp 0\<close>, and the settings of the scenario, with no file
  config and no password, give exactly the expected vector.
\<close>

theorem buildArgsFromConfig_fixed_order:
  "buildArgsFromConfig c f pw =
     (if sshHost_of c f \<noteq> [] then [''-s'', sshHost_of c f] else []) @
     (if sshPort_of c f \<noteq> 0 then [''-p'', String_num (sshPort_of c f)] else []) @
     (if localHost_of c f \<noteq> [] then [''-ls'', localHost_of c f] else []) @
     (if localPort_of c f \<noteq> 0 then [''-lp'', String_num (localPort_of c f)] else []) @
     [''-bp'', String_num (bindPort_of c f)] @
     (if id_of c f \<noteq> [] then [''-id'', id_of c f] else []) @
     (if finalPassword_of f pw \<noteq> [] then [''-pw'', finalPassword_of f pw] else []) @
     (if keepAlive_of c f then [''-a''] else []) @
     (if autoReconnect_of c f then [''-r''] else []) @
     map trim (filter (\<lambda>t. trim t \<noteq> []) (nullish_or (fc_args f) [])) @
     map trim (filter (\<lambda>t. trim t \<noteq> []) (nullish_or (cfg_args c) []))
   \<and> (bindPort_of c f = 0 \<longrightarrow>
        (\<exists>pre post. buildArgsFromConfig c f pw = pre @ [''-bp'', ''0''] @ post))
   \<and> buildArgsFromConfig
        (no_settings\<lparr>cfg_sshHost := Some ''getexposed.io'', cfg_sshPort := Some 2200,
           cfg_localHost := Some ''localhost'', cfg_localPort := Some 7500,
           cfg_bindPort := Some 0, cfg_keepAlive := Some True\<rparr>) no_file ''''
      = [''-s'', ''getexposed.io'', ''-p'', ''2200'', ''-ls'', ''localhost'', ''-lp'', ''7500'',
         ''-bp'', ''0'', ''-a'']"
proof (intro conjI impI)
  show order: "buildArgsFromConfig c f pw =
     (if sshHost_of c f \<noteq> [] then [''-s'', sshHost_of c f] else []) @
     (if sshPort_of c f \<noteq> 0 then [''-p'', String_num (sshPort_of c f)] else []) @
     (if localHost_of c f \<noteq> [] then [''-ls'', localHost_of c f] else []) @
     (if localPort_of c f \<noteq> 0 then [''-lp'', String_num (localPort_of c f)] else []) @
     [''-bp'', String_num (bindPort_of c f)] @
     (if id_of c f \<noteq> [] then [''-id'', id_of c f] else []) @
     (if finalPassword_of f pw \<noteq> [] then [''-pw'', finalPassword_of f pw] else []) @
     (if keepAlive_of c f then [''-a''] else []) @
     (if autoReconnect_of c f then [''-r''] else []) @
     map trim (filter (\<lambda>t. trim t \<noteq> []) (nullish_or (fc_args f) [])) @
     map trim (filter (\<lambda>t. trim t \<noteq> []) (nullish_or (cfg_args c) []))"
    by (simp add: buildArgsFromConfig_def Let_def push_if_def push_extras_eq)
  show "\<exists>pre post. buildArgsFromConfig c f pw = pre @ [''-bp'', ''0''] @ post"
    if "bindPort_of c f = 0"
    unfolding order using that String_num_0
    by (metis append.assoc)
  show "buildArgsFromConfig
        (no_settings\<lparr>cfg_sshHost := Some ''getexposed.io'', cfg_sshPort := Some 2200,
           cfg_localHost := Some ''localhost'', cfg_localPort := Some 7500,
           cfg_bindPort := Some 0, cfg_keepAlive := Some True\<rparr>) no_file ''''
      = [''-s'', ''getexposed.io'', ''-p'', ''2200'', ''-ls'', ''localhost'', ''-lp'', ''7500'',
         ''-bp'', ''0'', ''-a'']"
    by (simp add: buildArgsFromConfig_def no_settings_def no_file_def sshHost_of_def
        sshPort_of_def localHost_of_def localPort_of_def bindPort_of_def id_of_def
        keepAlive_of_def autoReconnect_of_def finalPassword_of_def push_if_def nullish_def
        nullish_or_def truthy_def trim_def is_ws_def String_num_def digits.simps
        digit_char_def)
qed

text \<open>
  The theorem at the scenario's settings with the bind port left unset: the bind port
  resolves to zero and \<open>-bp 0\<close> is in the vector.
\<close>

theorem buildArgsFromConfig_fixed_order_witness:
  "bindPort_of no_settings no_file = 0 \<and>
   (\<exists>pre post. buildArgsFromConfig no_settings no_file '''' = pre @ [''-bp'', ''0''] @ post)"
proof -
  have z: "bindPort_of no_settings no_file = 0"
    by (simp add: bindPort_of_def no_settings_def no_file_def nullish_def nullish_or_def)
  from buildArgsFromConfig_fixed_order [of no_settings no_file "''''"] z
  show ?thesis by blast
qed

section \<open>Password precedence\<close>

lemmas value_defs = nullish_def nullish_or_def str_or_def truthy_def trim_def is_ws_def
  String_num_def digits.simps digit_char_def push_if_def

lemmas field_defs = sshHost_of_def sshPort_of_def localHost_of_def localPort_of_def
  bindPort_of_def id_of_def keepAlive_of_def autoReconnect_of_def finalPassword_of_def
  userPath_of_def cwd_setting_of_def composeFile_of_def composeService_of_def

text \<open>
  Claim C2. The claim puts the file config's password above the legacy setting. The code
  does the opposite: \<open>getPassword\<close> already falls back to the legacy setting, and
  \<open>buildArgsFromConfig\<close> consults the file's password only when \<open>getPassword\<close> returned
  the empty string. With an empty secret store, file password \<open>filepw\<close> and legacy
  setting \<open>legacypw\<close>, the flag is \<open>-pw legacypw\<close>.
\<close>

theorem password_legacy_setting_beats_file:
  "getPassword None (no_settings\<lparr>cfg_legacyPassword := Some ''legacypw''\<rparr>) = ''legacypw''
   \<and> finalPassword_of (no_file\<lparr>fc_password := Some ''filepw''\<rparr>)
        (getPassword None (no_settings\<lparr>cfg_legacyPassword := Some ''legacypw''\<rparr>)) = ''legacypw''
   \<and> buildArgsFromConfig (no_settings\<lparr>cfg_legacyPassword := Some ''legacypw''\<rparr>)
        (no_file\<lparr>fc_password := Some ''filepw''\<rparr>)
        (getPassword None (no_settings\<lparr>cfg_legacyPassword := Some ''legacypw''\<rparr>))
      = [''-s'', ''getexposed.io'', ''-p'', ''2200'', ''-ls'', ''localhost'', ''-lp'', ''7500'',
         ''-bp'', ''0'', ''-pw'', ''legacypw'']"
  by (simp add: buildArgsFromConfig_def getPassword_def no_settings_def no_file_def
      field_defs value_defs)

text \<open>
  The two cases of the specification's scenario do hold: with no legacy setting the
  file password is used when the secret store is empty, and the secret wins over it.
\<close>

lemma password_scenario:
  "finalPassword_of (no_file\<lparr>fc_password := Some ''filepw''\<rparr>) (getPassword None no_settings)
     = ''filepw''
   \<and> finalPassword_of (no_file\<lparr>fc_password := Some ''filepw''\<rparr>)
        (getPassword (Some ''secretpw'') no_settings) = ''secretpw''"
  by (simp add: getPassword_def no_settings_def no_file_def field_defs value_defs)

text \<open>
  The order the code implements, for all inputs: the secret, else the legacy setting,
  else the file's password, each trimmed and skipped when blank.
\<close>

lemma dropWhile_no_leading: "xs = [] \<or> \<not> P (hd xs) \<Longrightarrow> dropWhile P xs = xs"
  by (cases xs) auto

lemma strip_trailing_keeps_head:
  assumes "t = [] \<or> \<not> P (hd t)"
  shows "rev (dropWhile P (rev t)) = [] \<or> \<not> P (hd (rev (dropWhile P (rev t))))"
proof (cases "rev (dropWhile P (rev t)) = []")
  case True
  then show ?thesis by simp
next
  case False
  have "t = rev (takeWhile P (rev t) @ dropWhile P (rev t))"
    by simp
  also have "\<dots> = rev (dropWhile P (rev t)) @ rev (takeWhile P (rev t))"
    by (simp only: rev_append)
  finally have split: "t = rev (dropWhile P (rev t)) @ rev (takeWhile P (rev t))" .
  with False have "hd (rev (dropWhile P (rev t))) = hd t"
    by (metis hd_append2)
  moreover have "t \<noteq> []"
    using False by auto
  ultimately show ?thesis
    using assms by simp
qed

lemma trim_idem: "trim (trim s) = trim s"
proof -
  define t where "t = dropWhile is_ws s"
  define u where "u = rev (dropWhile is_ws (rev t))"
  have "t = [] \<or> \<not> is_ws (hd t)"
    unfolding t_def using hd_dropWhile [of is_ws s] by blast
  then have "u = [] \<or> \<not> is_ws (hd u)"
    unfolding u_def by (rule strip_trailing_keeps_head)
  then have "dropWhile is_ws u = u"
    by (rule dropWhile_no_leading)
  moreover have "dropWhile is_ws (rev u) = rev u"
    unfolding u_def by simp
  ultimately have "rev (dropWhile is_ws (rev (dropWhile is_ws u))) = u"
    by simp
  moreover have "trim s = u"
    by (simp add: trim_def u_def t_def)
  ultimately show ?thesis
    by (simp add: trim_def)
qed

lemma password_order_in_code:
  "finalPassword_of f (getPassword sec c) =
     (if trim (str_or sec '''') \<noteq> [] then trim (str_or sec '''')
      else if trim (str_or (cfg_legacyPassword c) '''') \<noteq> []
      then trim (str_or (cfg_legacyPassword c) '''')
      else trim (nullish_or (fc_password f) ''''))"
  by (simp add: finalPassword_of_def getPassword_def Let_def trim_idem)

section \<open>String fields: which source is taken\<close>

lemma first_present_nonblank:
  "trim (first_present srcs d) \<noteq> [] \<Longrightarrow> spec_first_nonblank srcs d = trim (first_present srcs d)"
  by (induction srcs d rule: first_present.induct) auto

lemma ensureExpose_userPath:
  "trim (str_or (cfg_path (cfg e)) '''') \<noteq> [] \<Longrightarrow>
   ensureExpose b e s = (Inr (trim (str_or (cfg_path (cfg e)) '''')), s)"
  by (simp add: ensureExpose_def Let_def)

text \<open>
  Claim C3, as stated, fails: a blank host in the file config is not skipped. With the
  file's \<open>sshHost\<close> a single space and the setting \<open>example.com\<close>, the highest-precedence
  non-blank value is \<open>example.com\<close>, but the effective host is empty and no \<open>-s\<close> flag is
  emitted.
\<close>

theorem blank_file_sshHost_shadows_settings:
  "sshHost_of (no_settings\<lparr>cfg_sshHost := Some ''example.com''\<rparr>)
              (no_file\<lparr>fc_sshHost := Some '' ''\<rparr>) = []
   \<and> spec_first_nonblank [Some '' '', Some ''example.com''] ''getexposed.io'' = ''example.com''
   \<and> buildArgsFromConfig (no_settings\<lparr>cfg_sshHost := Some ''example.com''\<rparr>)
        (no_file\<lparr>fc_sshHost := Some '' ''\<rparr>) ''''
      = [''-p'', ''2200'', ''-ls'', ''localhost'', ''-lp'', ''7500'', ''-bp'', ''0'']"
  by (simp add: buildArgsFromConfig_def no_settings_def no_file_def field_defs value_defs)

text \<open>
  Claim C3, amended. Each string field is the trimmed value of the first source in which
  it is present: file config, then settings store, then the default. That is the
  highest-precedence non-blank value whenever the first present value is not blank. A
  blank value that is present is not skipped; the field is then empty, and: for \<open>cwd\<close>
  the workspace folder, else the home directory, is used; for \<open>path\<close> the search goes on
  in \<open>ensureExpose\<close>, which returns the trimmed \<open>expose.path\<close> setting when that is not
  blank.
\<close>

theorem string_fields_take_first_present:
  "sshHost_of c f = trim (first_present [fc_sshHost f, cfg_sshHost c] ''getexposed.io'')
   \<and> localHost_of c f = trim (first_present [fc_localHost f, cfg_localHost c] ''localhost'')
   \<and> id_of c f = trim (first_present [fc_id f, cfg_id c] '''')
   \<and> cwd_setting_of c f = trim (first_present [fc_cwd f, cfg_cwd c] '''')
   \<and> composeFile_of c f = trim (first_present [fc_composeFile f, cfg_composeFile c] '''')
   \<and> userPath_of c f = trim (first_present [fc_path f, cfg_path c] '''')
   \<and> (trim (first_present srcs d) \<noteq> [] \<longrightarrow>
        spec_first_nonblank srcs d = trim (first_present srcs d))
   \<and> (cwd_setting_of (cfg e) f = [] \<longrightarrow> resolveCwd e f = str_or (workspaceFolder e) (homedir e))
   \<and> (userPath_of (cfg e) f = [] \<and> trim (str_or (cfg_path (cfg e)) '''') \<noteq> [] \<longrightarrow>
        resolveBinary e f s = (Inr (Some (trim (str_or (cfg_path (cfg e)) ''''))), s))"
proof (intro conjI impI)
  show "sshHost_of c f = trim (first_present [fc_sshHost f, cfg_sshHost c] ''getexposed.io'')"
    by (simp add: sshHost_of_def nullish_def nullish_or_def split: option.splits)
  show "localHost_of c f = trim (first_present [fc_localHost f, cfg_localHost c] ''localhost'')"
    by (simp add: localHost_of_def nullish_def nullish_or_def split: option.splits)
  show "id_of c f = trim (first_present [fc_id f, cfg_id c] '''')"
    by (simp add: id_of_def nullish_def nullish_or_def split: option.splits)
  show "cwd_setting_of c f = trim (first_present [fc_cwd f, cfg_cwd c] '''')"
    by (simp add: cwd_setting_of_def nullish_def nullish_or_def split: option.splits)
  show "composeFile_of c f = trim (first_present [fc_composeFile f, cfg_composeFile c] '''')"
    by (simp add: composeFile_of_def nullish_def nullish_or_def split: option.splits)
  show "userPath_of c f = trim (first_present [fc_path f, cfg_path c] '''')"
    by (simp add: userPath_of_def nullish_def nullish_or_def split: option.splits)
  show "spec_first_nonblank srcs d = trim (first_present srcs d)"
    if "trim (first_present srcs d) \<noteq> []"
    using that by (rule first_present_nonblank)
  show "resolveCwd e f = str_or (workspaceFolder e) (homedir e)"
    if "cwd_setting_of (cfg e) f = []"
    using that by (simp add: resolveCwd_def)
  show "resolveBinary e f s = (Inr (Some (trim (str_or (cfg_path (cfg e)) ''''))), s)"
    if "userPath_of (cfg e) f = [] \<and> trim (str_or (cfg_path (cfg e)) '''') \<noteq> []"
    using that by (simp add: resolveBinary_def ensureExpose_userPath)
qed

text \<open>
  The theorem where the file config holds a blank \<open>cwd\<close> and a blank \<open>path\<close>, and the
  settings hold the path \<open>/opt/expose\<close>: the working directory is the workspace folder
  and the binary is the settings path.
\<close>

theorem string_fields_take_first_present_witness:
  "trim (first_present [None, Some '' host ''] ''getexposed.io'') \<noteq> []
   \<and> spec_first_nonblank [None, Some '' host ''] ''getexposed.io'' = ''host''
   \<and> cwd_setting_of (cfg (linux_env\<lparr>cfg := no_settings\<lparr>cfg_path := Some ''/opt/expose''\<rparr>\<rparr>))
        (no_file\<lparr>fc_path := Some '' '', fc_cwd := Some ''''\<rparr>) = []
   \<and> resolveCwd (linux_env\<lparr>cfg := no_settings\<lparr>cfg_path := Some ''/opt/expose''\<rparr>\<rparr>)
        (no_file\<lparr>fc_path := Some '' '', fc_cwd := Some ''''\<rparr>) = ''/ws''
   \<and> userPath_of (cfg (linux_env\<lparr>cfg := no_settings\<lparr>cfg_path := Some ''/opt/expose''\<rparr>\<rparr>))
        (no_file\<lparr>fc_path := Some '' '', fc_cwd := Some ''''\<rparr>) = []
   \<and> resolveBinary (linux_env\<lparr>cfg := no_settings\<lparr>cfg_path := Some ''/opt/expose''\<rparr>\<rparr>)
        (no_file\<lparr>fc_path := Some '' '', fc_cwd := Some ''''\<rparr>) tracked_state
      = (Inr (Some ''/opt/expose''), tracked_state)"
proof -
  let ?e = "linux_env\<lparr>cfg := no_settings\<lparr>cfg_path := Some ''/opt/expose''\<rparr>\<rparr>"
  let ?f = "no_file\<lparr>fc_path := Some '' '', fc_cwd := Some ''''\<rparr>"
  have a: "trim (first_present [None, Some '' host ''] ''getexposed.io'') = ''host''"
    by (simp add: trim_def is_ws_def)
  have b: "cwd_setting_of (cfg ?e) ?f = []"
    by (simp add: linux_env_def no_settings_def no_file_def field_defs value_defs)
  have c: "userPath_of (cfg ?e) ?f = []"
    by (simp add: linux_env_def no_settings_def no_file_def field_defs value_defs)
  have d: "trim (str_or (cfg_path (cfg ?e)) '''') = ''/opt/expose''"
    by (simp add: linux_env_def no_settings_def value_defs)
  have w: "str_or (workspaceFolder ?e) (homedir ?e) = ''/ws''"
    by (simp add: linux_env_def str_or_def)
  from string_fields_take_first_present
         [where c = no_settings and f = ?f and srcs = "[None, Some '' host '']"
            and d = "''getexposed.io''" and e = ?e and s = tracked_state]
  show ?thesis using a b c d w by simp
qed

section \<open>Stopping: signals and the escalation timer\<close>

text \<open>
  Right after any stop the variable \<open>proc\<close> is empty, so the timer's callback, which
  reads that variable, sends nothing. On Windows the tree-kill is issued at once.
\<close>

lemma proc_stopAgent: "proc (stopAgent e s) = None"
  by (simp add: stopAgent_def set_idle_def Let_def split: option.splits)

lemma timer_after_stop_sends_nothing:
  "effects (timer_fires (stopAgent e s)) = effects (stopAgent e s)"
  using proc_stopAgent [of e s] by (simp add: timer_fires_def Let_def)

lemma stopAgent_windows:
  "proc s = Some p \<Longrightarrow> platform e = ''win32'' \<Longrightarrow> \<not> kill_throws e \<Longrightarrow>
   stopAgent e s = set_idle (s\<lparr>effects := effects s @ [Taskkill p]\<rparr>)"
  by (simp add: stopAgent_def)

lemma stopAgent_signals:
  "proc s = Some p \<Longrightarrow> platform e \<noteq> ''win32'' \<Longrightarrow> \<not> kill_throws e \<Longrightarrow>
   stopAgent e s = set_idle (s\<lparr>effects := effects s @ [Kill p SIGINT, SetTimeout 1500],
                                timers := Suc (timers s)\<rparr>)"
  by (simp add: stopAgent_def)

text \<open>
  Claim C4. The claim is that a child that has not exited after the grace period gets
  \<open>SIGKILL\<close>. On Linux, stopping the tracked child 0 sends \<open>SIGINT\<close> and sets the 1500 ms
  timer; when the timer fires, nothing more is sent: child 0 never gets \<open>SIGKILL\<close>.
\<close>

theorem stop_escalation_misses_stopped_child:
  "effects (stopAgent linux_env tracked_state) = [Kill 0 SIGINT, SetTimeout 1500]
   \<and> timers (stopAgent linux_env tracked_state) = 1
   \<and> proc (stopAgent linux_env tracked_state) = None
   \<and> effects (timer_fires (stopAgent linux_env tracked_state)) = [Kill 0 SIGINT, SetTimeout 1500]
   \<and> timers (timer_fires (stopAgent linux_env tracked_state)) = 0
   \<and> Kill 0 SIGKILL \<notin> set (effects (timer_fires (stopAgent linux_env tracked_state)))"
  by (simp add: timer_fires_def stopAgent_def linux_env_def tracked_state_def set_idle_def
      Let_def)

section \<open>Binary provisioner: what \<open>ensureExpose\<close> returns\<close>

lemma ensureExpose_managed:
  "trim (str_or (cfg_path (cfg e)) '''') = [] \<Longrightarrow>
   existsSync s (if platform e = ''win32'' then ''expose.exe'' else ''expose'') \<Longrightarrow>
   ensureExpose b e s =
     (Inr (path_join e (binDir e) (if platform e = ''win32'' then ''expose.exe'' else ''expose'')), s)"
  by (cases "platform e = ''win32''")
     (auto simp add: ensureExpose_def mkdir_recursive_def and_then_def existsSync_def
        store_get_def Let_def split: option.splits)

lemma ensureExpose_mkdir_fails:
  "trim (str_or (cfg_path (cfg e)) '''') = [] \<Longrightarrow> bin_store s = None \<Longrightarrow>
   fs_fails e Mkdir = Some m \<Longrightarrow> ensureExpose b e s = (Inl (Thrown m), s)"
  by (simp add: ensureExpose_def mkdir_recursive_def and_then_def fs_call_def Let_def)

lemma ensureExpose_NotInstalled_iff:
  "bin_store s \<noteq> None \<or> fs_fails e Mkdir = None \<Longrightarrow>
   (fst (ensureExpose False e s) = Inl NotInstalled) =
   (trim (str_or (cfg_path (cfg e)) '''') = []
    \<and> \<not> existsSync s (if platform e = ''win32'' then ''expose.exe'' else ''expose''))"
  by (auto simp add: ensureExpose_def mkdir_recursive_def and_then_def existsSync_def
      store_get_def fs_call_def Let_def split: option.splits)

text \<open>
  Claim C6, as stated, fails in two places. A configured path with surrounding white
  space is returned trimmed, not unchanged: \<open>" /opt/expose "\<close> comes back as
  \<open>"/opt/expose"\<close>. And with no path configured and no binary present the error is not
  always \<open>NotInstalled\<close>: when the managed directory does not exist and \<open>mkdir\<close> fails
  with \<open>EACCES\<close>, that error is what \<open>ensureExpose\<close> throws.
\<close>

theorem ensureExpose_trims_path_and_mkdir_error:
  "fst (ensureExpose False (linux_env\<lparr>cfg := no_settings\<lparr>cfg_path := Some '' /opt/expose ''\<rparr>\<rparr>)
          tracked_state) = Inr ''/opt/expose''
   \<and> trim (str_or (cfg_path (cfg readonly_env)) '''') = []
   \<and> \<not> existsSync tracked_state ''expose''
   \<and> fst (ensureExpose False readonly_env tracked_state)
      = Inl (Thrown ''EACCES'')"
proof (intro conjI)
  show "fst (ensureExpose False
          (linux_env\<lparr>cfg := no_settings\<lparr>cfg_path := Some '' /opt/expose ''\<rparr>\<rparr>) tracked_state)
        = Inr ''/opt/expose''"
    by (simp add: ensureExpose_userPath linux_env_def no_settings_def value_defs)
  show np: "trim (str_or (cfg_path (cfg readonly_env)) '''') = []"
    by (simp add: readonly_env_def linux_env_def no_settings_def value_defs)
  show "\<not> existsSync tracked_state ''expose''"
    by (simp add: existsSync_def store_get_def tracked_state_def)
  show "fst (ensureExpose False readonly_env tracked_state)
        = Inl (Thrown ''EACCES'')"
    using np
    by (simp add: ensureExpose_mkdir_fails [where m = "''EACCES''"] tracked_state_def
        readonly_env_def)
qed

text \<open>
  Claim C6, amended. With \<open>installIfMissing\<close> false: a non-blank configured path is
  returned trimmed of surrounding white space, with no existence check and no change
  of state; otherwise, when a file exists at the managed path, that path is returned;
  and, provided the managed directory exists or can be created, the call fails with
  \<open>NotInstalled\<close> exactly when no path is configured and no file exists at the managed
  path. When the directory is missing and cannot be created, the error of \<open>mkdir\<close> is
  thrown instead.
\<close>

theorem ensureExpose_without_install:
  "(trim (str_or (cfg_path (cfg e)) '''') \<noteq> [] \<longrightarrow>
      ensureExpose False e s = (Inr (trim (str_or (cfg_path (cfg e)) '''')), s))
   \<and> (trim (str_or (cfg_path (cfg e)) '''') = []
        \<and> existsSync s (if platform e = ''win32'' then ''expose.exe'' else ''expose'') \<longrightarrow>
      ensureExpose False e s =
        (Inr (path_join e (binDir e)
                (if platform e = ''win32'' then ''expose.exe'' else ''expose'')), s))
   \<and> (bin_store s \<noteq> None \<or> fs_fails e Mkdir = None \<longrightarrow>
        (fst (ensureExpose False e s) = Inl NotInstalled) =
        (trim (str_or (cfg_path (cfg e)) '''') = []
         \<and> \<not> existsSync s (if platform e = ''win32'' then ''expose.exe'' else ''expose'')))
   \<and> (trim (str_or (cfg_path (cfg e)) '''') = [] \<and> bin_store s = None
        \<and> fs_fails e Mkdir = Some m \<longrightarrow>
      ensureExpose False e s = (Inl (Thrown m), s))"
  using ensureExpose_userPath [of e False s] ensureExpose_managed [of e s False]
    ensureExpose_NotInstalled_iff [of s e] ensureExpose_mkdir_fails [of e s m False]
  by blast

text \<open>
  The theorem on Linux with default settings: with the binary installed the managed
  path is returned; with an empty store the call fails with \<open>NotInstalled\<close>; with the
  setting \<open>/opt/expose\<close> that path is returned.
\<close>

theorem ensureExpose_without_install_witness:
  "trim (str_or (cfg_path (cfg linux_env)) '''') = []
   \<and> existsSync (tracked_state\<lparr>bin_store := installed_store\<rparr>) ''expose''
   \<and> ensureExpose False linux_env (tracked_state\<lparr>bin_store := installed_store\<rparr>)
      = (Inr ''/gs/bin/expose'', tracked_state\<lparr>bin_store := installed_store\<rparr>)
   \<and> fs_fails linux_env Mkdir = None
   \<and> \<not> existsSync tracked_state ''expose''
   \<and> fst (ensureExpose False linux_env tracked_state) = Inl NotInstalled
   \<and> trim (str_or (cfg_path (cfg (linux_env\<lparr>cfg := no_settings\<lparr>cfg_path := Some ''/opt/expose''\<rparr>\<rparr>)))
        '''') \<noteq> []
   \<and> ensureExpose False (linux_env\<lparr>cfg := no_settings\<lparr>cfg_path := Some ''/opt/expose''\<rparr>\<rparr>)
        tracked_state = (Inr ''/opt/expose'', tracked_state)
   \<and> fs_fails readonly_env Mkdir = Some ''EACCES''
   \<and> ensureExpose False readonly_env tracked_state
      = (Inl (Thrown ''EACCES''), tracked_state)"
proof -
  let ?s = "tracked_state\<lparr>bin_store := installed_store\<rparr>"
  let ?e = "linux_env\<lparr>cfg := no_settings\<lparr>cfg_path := Some ''/opt/expose''\<rparr>\<rparr>"
  have np: "trim (str_or (cfg_path (cfg linux_env)) '''') = []"
    by (simp add: linux_env_def no_settings_def value_defs)
  have npr: "trim (str_or (cfg_path (cfg readonly_env)) '''') = []"
    by (simp add: readonly_env_def linux_env_def no_settings_def value_defs)
  have ex: "existsSync ?s ''expose''"
    by (simp add: existsSync_def store_get_def installed_store_def)
  have nex: "\<not> existsSync tracked_state ''expose''"
    by (simp add: existsSync_def store_get_def tracked_state_def)
  have env: "platform linux_env = ''linux''" "binDir linux_env = ''/gs/bin''"
    "path_join linux_env = (\<lambda>d n. d @ ''/'' @ n)" "fs_fails linux_env Mkdir = None"
    by (simp_all add: linux_env_def)
  have up: "trim (str_or (cfg_path (cfg ?e)) '''') = ''/opt/expose''"
    by (simp add: linux_env_def no_settings_def value_defs)
  have st: "bin_store tracked_state = None"
    by (simp add: tracked_state_def)
  have r: "fs_fails readonly_env Mkdir = Some ''EACCES''"
    by (simp add: readonly_env_def)
  from ensureExpose_without_install [of linux_env ?s] np ex env
  have 1: "ensureExpose False linux_env ?s = (Inr ''/gs/bin/expose'', ?s)" by simp
  from ensureExpose_without_install [of linux_env tracked_state] np nex env
  have 2: "fst (ensureExpose False linux_env tracked_state) = Inl NotInstalled" by simp
  from ensureExpose_without_install [of ?e tracked_state] up
  have 3: "ensureExpose False ?e tracked_state = (Inr ''/opt/expose'', tracked_state)" by simp
  from ensureExpose_without_install [of readonly_env tracked_state "''EACCES''"] npr st r
  have 4: "ensureExpose False readonly_env tracked_state = (Inl (Thrown ''EACCES''), tracked_state)"
    by blast
  from np ex nex env up r 1 2 3 4 show ?thesis by simp
qed

text \<open>
  Claim C7. With no user path configured (absent or blank) and a file at the managed
  path, \<open>ensureExpose\<close> with \<open>installIfMissing\<close> true returns the managed path and leaves
  the whole state as it was: no request is added to the effects and the store, with
  the file in it, is unchanged.
\<close>

theorem ensureExpose_present_binary_no_network:
  assumes "trim (str_or (cfg_path (cfg e)) '''') = []"
    and "existsSync s (if platform e = ''win32'' then ''expose.exe'' else ''expose'')"
  shows "ensureExpose True e s =
           (Inr (path_join e (binDir e)
                   (if platform e = ''win32'' then ''expose.exe'' else ''expose'')), s)
         \<and> effects (snd (ensureExpose True e s)) = effects s
         \<and> bin_store (snd (ensureExpose True e s)) = bin_store s"
  using ensureExpose_managed [OF assms, of True] by simp

theorem ensureExpose_present_binary_no_network_witness:
  "trim (str_or (cfg_path (cfg linux_env)) '''') = []
   \<and> existsSync (tracked_state\<lparr>bin_store := installed_store\<rparr>) ''expose''
   \<and> ensureExpose True linux_env (tracked_state\<lparr>bin_store := installed_store\<rparr>)
      = (Inr ''/gs/bin/expose'', tracked_state\<lparr>bin_store := installed_store\<rparr>)
   \<and> effects (snd (ensureExpose True linux_env (tracked_state\<lparr>bin_store := installed_store\<rparr>)))
      = []"
proof -
  let ?s = "tracked_state\<lparr>bin_store := installed_store\<rparr>"
  have np: "trim (str_or (cfg_path (cfg linux_env)) '''') = []"
    by (simp add: linux_env_def no_settings_def value_defs)
  have pl: "platform linux_env = ''linux''" "binDir linux_env = ''/gs/bin''"
    "path_join linux_env = (\<lambda>d n. d @ ''/'' @ n)"
    by (simp_all add: linux_env_def)
  have ex: "existsSync ?s (if platform linux_env = ''win32'' then ''expose.exe'' else ''expose'')"
    by (simp add: pl existsSync_def store_get_def installed_store_def)
  have ef: "effects ?s = []"
    by (simp add: tracked_state_def)
  from ensureExpose_present_binary_no_network [OF np ex] np ex pl ef
  show ?thesis by simp
qed

section \<open>Supervisor: start while tracked\<close>

text \<open>\<open>startAgent\<close> in one piece.\<close>

lemma start_catch_set_idle:
  "start_catch err s = set_idle (notify (Error (''Expose: failed to start: '' @ message err)) s)"
  by (simp add: start_catch_def set_idle_def Let_def)

lemma startAgent_unfold:
  "startAgent e s =
     (if proc s \<noteq> None then notify (Info ''Expose agent is already running.'') s
      else case readExposeConfigFile e s of (fileOpt, s1) \<Rightarrow>
        (let fileCfg = nullish_or fileOpt no_file;
             cwd = resolveCwd e fileCfg;
             password = getPassword (secret e) (cfg e);
             s2 = s1\<lparr>output_log := []\<rparr>
         in case start_try e fileCfg cwd password s2 of
              (Inr _, s3) \<Rightarrow> s3
            | (Inl err, s3) \<Rightarrow>
                set_idle (notify (Error (''Expose: failed to start: '' @ message err)) s3)))"
  by (simp add: startAgent_def start_attempt_def start_catch_set_idle Let_def
      split: prod.splits sum.splits)

text \<open>
  Claim C8. A start request while a process is tracked only adds the informational
  notice: nothing is spawned, and the tracked reference, the status item and every
  other part of the state stay as they are.
\<close>

theorem startAgent_rejected_while_tracked:
  assumes "proc s \<noteq> None"
  shows "startAgent e s = s\<lparr>notices := notices s @ [Info ''Expose agent is already running.'']\<rparr>
         \<and> proc (startAgent e s) = proc s \<and> status (startAgent e s) = status s
         \<and> effects (startAgent e s) = effects s \<and> next_child (startAgent e s) = next_child s
         \<and> timers (startAgent e s) = timers s"
  using assms by (simp add: startAgent_unfold notify_def)

theorem startAgent_rejected_while_tracked_witness:
  "proc tracked_state \<noteq> None
   \<and> startAgent linux_env tracked_state
      = tracked_state\<lparr>notices := [Info ''Expose agent is already running.'']\<rparr>
   \<and> proc (startAgent linux_env tracked_state) = Some 0
   \<and> effects (startAgent linux_env tracked_state) = []"
proof -
  have t: "proc tracked_state \<noteq> None"
    by (simp add: tracked_state_def)
  from startAgent_rejected_while_tracked [OF t, of linux_env] t
  show ?thesis by (simp add: tracked_state_def)
qed

section \<open>Supervisor: what touches the tracked reference\<close>

lemma untouched_refl: "untouched s s"
  by (simp add: untouched_def)

lemma untouched_trans: "untouched s s1 \<Longrightarrow> untouched s1 s2 \<Longrightarrow> untouched s s2"
  by (simp add: untouched_def)

lemma untouched_and_then:
  assumes "untouched s0 (snd r)"
    and "\<And>x s1. untouched s0 s1 \<Longrightarrow> untouched s0 (snd (f x s1))"
  shows "untouched s0 (snd (and_then r f))"
proof (cases r)
  case (Pair res s1)
  with assms show ?thesis
    by (cases res) (auto simp: and_then_def)
qed

lemma untouched_fs_call: "untouched s0 s \<Longrightarrow> untouched s0 (snd (fs_call e op s))"
  by (simp add: fs_call_def split: option.splits)

lemma untouched_store_put: "untouched s0 s \<Longrightarrow> untouched s0 (store_put n f s)"
  by (simp add: store_put_def untouched_def)

lemma untouched_fetch_checked: "untouched s0 s \<Longrightarrow> untouched s0 (snd (fetch_checked e url s))"
  by (simp add: fetch_checked_def untouched_def Let_def split: sum.splits)

lemma untouched_httpJson: "untouched s0 s \<Longrightarrow> untouched s0 (snd (httpJson e url s))"
  unfolding httpJson_def
  by (rule untouched_and_then) (auto simp: untouched_fetch_checked split: sum.splits)

lemma untouched_download: "untouched s0 s \<Longrightarrow> untouched s0 (snd (download e url n s))"
  unfolding download_def
  by (intro untouched_and_then untouched_fetch_checked untouched_fs_call)
     (simp_all add: untouched_store_put)

lemma untouched_sha256File: "untouched s0 s \<Longrightarrow> untouched s0 (snd (sha256File e n s))"
  unfolding sha256File_def
  by (rule untouched_and_then) (auto simp: untouched_fs_call split: option.splits)

lemma untouched_copyFile: "untouched s0 s \<Longrightarrow> untouched s0 (snd (copyFile e a b s))"
  unfolding copyFile_def
  by (rule untouched_and_then)
     (auto simp: untouched_fs_call untouched_store_put split: option.splits)

lemma untouched_chmod755: "untouched s0 s \<Longrightarrow> untouched s0 (snd (chmod755 e n s))"
  unfolding chmod755_def
  by (rule untouched_and_then)
     (auto simp: untouched_fs_call untouched_store_put split: option.splits)

lemma untouched_mkdir: "untouched s0 s \<Longrightarrow> untouched s0 (snd (mkdir_recursive e s))"
proof (cases "bin_store s")
  case None
  assume u: "untouched s0 s"
  have "untouched s0 (snd (and_then (fs_call e Mkdir s)
          (\<lambda>_ s1. (Inr (), s1\<lparr>bin_store := Some Map.empty\<rparr>))))"
  proof (rule untouched_and_then)
    show "untouched s0 (snd (fs_call e Mkdir s))"
      by (rule untouched_fs_call [OF u])
  next
    fix x :: unit and s1
    assume "untouched s0 s1"
    then show "untouched s0 (snd (Inr (), s1\<lparr>bin_store := Some Map.empty\<rparr>))"
      by (simp add: untouched_def)
  qed
  with None show ?thesis by (simp add: mkdir_recursive_def)
next
  case (Some m)
  assume "untouched s0 s"
  with Some show ?thesis by (simp add: mkdir_recursive_def)
qed

lemma untouched_effects:
  "untouched s0 s \<Longrightarrow> untouched s0 (s\<lparr>effects := x\<rparr>)"
  by (simp add: untouched_def)

lemma untouched_install: "untouched s0 s \<Longrightarrow> untouched s0 (snd (install e n p s))"
  unfolding install_def
  apply (rule untouched_and_then)
   apply (erule untouched_httpJson)
  apply (simp split: option.splits add: Let_def)
  apply (intro conjI impI allI)
  apply (rule untouched_and_then)
   apply (erule untouched_download)
  apply (rule untouched_and_then)
   apply (erule untouched_sha256File)
  apply (rule untouched_and_then)
   apply (rule untouched_copyFile)
   apply (erule untouched_effects)
  apply (auto intro!: untouched_and_then untouched_chmod755)
  done

lemma untouched_ensureExpose: "untouched s0 s \<Longrightarrow> untouched s0 (snd (ensureExpose b e s))"
  unfolding ensureExpose_def Let_def
  by (auto intro!: untouched_and_then untouched_mkdir untouched_install)

lemma untouched_resolveBinary:
  assumes "untouched s0 s"
  shows "untouched s0 (snd (resolveBinary e f s))"
proof -
  obtain r s1 where r: "ensureExpose False e s = (r, s1)"
    by (cases "ensureExpose False e s")
  have u1: "untouched s0 s1"
    using untouched_ensureExpose [OF assms, of False e] r by simp
  have u2: "untouched s0 (snd (and_then (ensureExpose True e s1) (\<lambda>p s2. (Inr (Some p), s2))))"
    by (rule untouched_and_then) (auto simp: untouched_ensureExpose u1)
  show ?thesis
    using assms u1 u2 r
    by (cases r) (auto simp: resolveBinary_def Let_def)
qed

lemma untouched_readExposeConfigFile:
  "untouched s0 s \<Longrightarrow> untouched s0 (snd (readExposeConfigFile e s))"
  by (auto simp: readExposeConfigFile_def Let_def untouched_def split: option.splits)

lemma untouched_spawn: "untouched s0 s \<Longrightarrow> untouched s0 (snd (spawn e c a w s))"
  by (auto simp: spawn_def untouched_def split: option.splits)

lemma untouched_notify: "untouched s0 s \<Longrightarrow> untouched s0 (notify n s)"
  by (simp add: notify_def untouched_def)

lemma untouched_appendLine: "untouched s0 s \<Longrightarrow> untouched s0 (appendLine l s)"
  by (simp add: appendLine_def untouched_def)

lemma untouched_runOnce: "untouched s (snd (runOnce e s))"
proof -
  obtain fo s1 where r: "readExposeConfigFile e s = (fo, s1)"
    by (cases "readExposeConfigFile e s")
  have u1: "untouched s s1"
    using untouched_readExposeConfigFile [OF untouched_refl [of s], of e] r by simp
  show ?thesis
    unfolding runOnce_def r Let_def prod.case
    by (rule untouched_and_then)
       (auto intro!: untouched_and_then untouched_resolveBinary untouched_spawn
          untouched_notify untouched_appendLine
          simp: u1 split: option.splits)
qed

lemma untouched_installOrUpdate: "untouched s (installOrUpdate e s)"
proof -
  obtain r s1 where r: "ensureExpose True e s = (r, s1)"
    by (cases "ensureExpose True e s")
  have "untouched s s1"
    using untouched_ensureExpose [OF untouched_refl [of s], of True e] r by simp
  then show ?thesis
    by (cases r) (simp_all add: installOrUpdate_def r untouched_notify)
qed

lemma and_then_Inl: "and_then (Inl err, s) f = (Inl err, s)"
  by (simp add: and_then_def)

lemma and_then_Inr: "and_then (Inr x, s) f = f x s"
  by (simp add: and_then_def)

lemma spawn_then_tracked:
  assumes "untouched s s1"
  shows "untouched s (snd (and_then (spawn e c a w s1)
            (\<lambda>child s'. (Inr (), s'\<lparr>proc := Some child, status := running_status\<rparr>))))
         \<or> started s (snd (and_then (spawn e c a w s1)
            (\<lambda>child s'. (Inr (), s'\<lparr>proc := Some child, status := running_status\<rparr>))))"
  using assms
  by (cases "spawn_throws e") (auto simp: spawn_def and_then_def untouched_def started_def)

lemma spawn_throws_untouched:
  assumes "untouched s s1" and "spawn_throws e = Some m"
  shows "untouched s (snd (and_then (spawn e c a w s1) k))"
  using assms by (simp add: spawn_def and_then_def)

lemma start_try_outcome:
  "untouched s (snd (start_try e f cwd pw s)) \<or> started s (snd (start_try e f cwd pw s))"
proof (cases "composeFile_of (cfg e) f \<noteq> []")
  case True
  have "untouched s (appendLine l s)" for l
    by (rule untouched_appendLine [OF untouched_refl])
  from spawn_then_tracked [OF this] True show ?thesis
    by (simp add: start_try_def Let_def)
next
  case False
  obtain r s1 where r: "resolveBinary e f s = (r, s1)"
    by (cases "resolveBinary e f s")
  have u1: "untouched s s1"
    using untouched_resolveBinary [OF untouched_refl [of s], of e f] r by simp
  have u2: "untouched s (appendLine l s1)" for l
    by (rule untouched_appendLine [OF u1])
  show ?thesis
  proof (cases r)
    case (Inl err)
    with False r u1 show ?thesis
      by (simp add: start_try_def Let_def and_then_Inl)
  next
    case (Inr bo)
    show ?thesis
    proof (cases bo)
      case None
      with False r Inr untouched_notify [OF u1] show ?thesis
        by (simp add: start_try_def Let_def and_then_Inr)
    next
      case (Some bp)
      show ?thesis
      proof (cases "bp = []")
        case True
        with False r Inr Some untouched_notify [OF u1] show ?thesis
          by (simp add: start_try_def Let_def and_then_Inr)
      next
        case nonempty: False
        from spawn_then_tracked [OF u2] False r Inr Some nonempty show ?thesis
          by (simp add: start_try_def Let_def and_then_Inr)
      qed
    qed
  qed
qed

lemma start_try_spawn_throws:
  assumes "spawn_throws e = Some m"
  shows "untouched s (snd (start_try e f cwd pw s))"
proof (cases "composeFile_of (cfg e) f \<noteq> []")
  case True
  have "untouched s (appendLine l s)" for l
    by (rule untouched_appendLine [OF untouched_refl])
  from spawn_throws_untouched [OF this assms] True show ?thesis
    by (simp add: start_try_def Let_def)
next
  case False
  obtain r s1 where r: "resolveBinary e f s = (r, s1)"
    by (cases "resolveBinary e f s")
  have u1: "untouched s s1"
    using untouched_resolveBinary [OF untouched_refl [of s], of e f] r by simp
  have u2: "untouched s (appendLine l s1)" for l
    by (rule untouched_appendLine [OF u1])
  show ?thesis
  proof (cases r)
    case (Inl err)
    with False r u1 show ?thesis
      by (simp add: start_try_def Let_def and_then_Inl)
  next
    case (Inr bo)
    with False r u1 untouched_notify [OF u1] spawn_throws_untouched [OF u2 assms]
    show ?thesis
      by (cases bo) (auto simp add: start_try_def Let_def and_then_Inr)
  qed
qed

text \<open>
  A start from the idle state ends in one of three ways: the early return (nothing
  tracked, status as before), the \<open>catch\<close> block (nothing tracked, idle status), or a
  tracked new child with the running status.
\<close>

lemma startAgent_outcome:
  assumes "proc s = None"
  shows "(proc (startAgent e s) = None \<and> next_child s \<le> next_child (startAgent e s)
          \<and> (status (startAgent e s) = status s \<or> status (startAgent e s) = idle_status))
         \<or> started s (startAgent e s)"
proof -
  obtain fo s1 where r: "readExposeConfigFile e s = (fo, s1)"
    by (cases "readExposeConfigFile e s")
  have u1: "untouched s s1"
    using untouched_readExposeConfigFile [OF untouched_refl [of s], of e] r by simp
  let ?s2 = "s1\<lparr>output_log := []\<rparr>"
  have u2: "untouched s ?s2"
    using u1 by (simp add: untouched_def)
  let ?t = "start_try e (nullish_or fo no_file) (resolveCwd e (nullish_or fo no_file))
              (getPassword (secret e) (cfg e)) ?s2"
  obtain res s3 where t: "?t = (res, s3)"
    by (cases ?t)
  have o: "untouched ?s2 s3 \<or> started ?s2 s3"
    using start_try_outcome [of ?s2 e "nullish_or fo no_file"
        "resolveCwd e (nullish_or fo no_file)" "getPassword (secret e) (cfg e)"] t
    by simp
  have sa: "startAgent e s =
      (case res of Inr _ \<Rightarrow> s3
       | Inl err \<Rightarrow> set_idle (notify (Error (''Expose: failed to start: '' @ message err)) s3))"
    using assms r t by (simp add: startAgent_unfold Let_def)
  show ?thesis
  proof (cases res)
    case (Inl err)
    from o u2 show ?thesis
      unfolding sa Inl
      by (auto simp: set_idle_def notify_def untouched_def started_def)
  next
    case (Inr u)
    from o u2 assms show ?thesis
      unfolding sa Inr
      by (auto simp: untouched_def started_def)
  qed
qed

lemma startAgent_spawn_throws:
  assumes "proc s = None" and "spawn_throws e = Some m"
  shows "proc (startAgent e s) = None
         \<and> (status (startAgent e s) = status s \<or> status (startAgent e s) = idle_status)"
proof -
  obtain fo s1 where r: "readExposeConfigFile e s = (fo, s1)"
    by (cases "readExposeConfigFile e s")
  have u1: "untouched s s1"
    using untouched_readExposeConfigFile [OF untouched_refl [of s], of e] r by simp
  let ?s2 = "s1\<lparr>output_log := []\<rparr>"
  have u2: "untouched s ?s2"
    using u1 by (simp add: untouched_def)
  let ?t = "start_try e (nullish_or fo no_file) (resolveCwd e (nullish_or fo no_file))
              (getPassword (secret e) (cfg e)) ?s2"
  obtain res s3 where t: "?t = (res, s3)"
    by (cases ?t)
  have o: "untouched ?s2 s3"
    using start_try_spawn_throws [OF assms(2), of ?s2 "nullish_or fo no_file"
        "resolveCwd e (nullish_or fo no_file)" "getPassword (secret e) (cfg e)"] t
    by simp
  have sa: "startAgent e s =
      (case res of Inr _ \<Rightarrow> s3
       | Inl err \<Rightarrow> set_idle (notify (Error (''Expose: failed to start: '' @ message err)) s3))"
    using assms r t by (simp add: startAgent_unfold Let_def)
  from o u2 assms(1) show ?thesis
    unfolding sa
    by (cases res) (auto simp: set_idle_def notify_def untouched_def)
qed

lemma proc_step_untouched: "untouched s s' \<Longrightarrow> proc_step s s'"
  by (simp add: proc_step_def untouched_def)

lemma proc_step_trans:
  assumes "proc_step s s1" and "proc_step s1 s2"
  shows "proc_step s s2"
proof -
  have n: "next_child s \<le> next_child s1" "next_child s1 \<le> next_child s2"
    using assms by (simp_all add: proc_step_def)
  have nn: "next_child s \<le> next_child s2"
    using n by simp
  consider "proc s2 = proc s1" | "proc s2 = None"
    | k where "next_child s1 \<le> k" "k < next_child s2" "proc s2 = Some k"
    using assms(2) by (auto simp: proc_step_def)
  then show ?thesis
  proof cases
    case 1
    consider "proc s1 = proc s" | "proc s1 = None"
      | k where "next_child s \<le> k" "k < next_child s1" "proc s1 = Some k"
      using assms(1) by (auto simp: proc_step_def)
    then show ?thesis
    proof cases
      case 3
      then have "next_child s \<le> k \<and> k < next_child s2 \<and> proc s2 = Some k"
        using 1 n by simp
      then show ?thesis
        using nn unfolding proc_step_def by blast
    qed (use 1 n in \<open>simp_all add: proc_step_def\<close>)
  next
    case 2
    then show ?thesis
      using n by (simp add: proc_step_def)
  next
    case 3
    then have "next_child s \<le> k \<and> k < next_child s2 \<and> proc s2 = Some k"
      using n by simp
    then show ?thesis
      using nn unfolding proc_step_def by blast
  qed
qed

lemma proc_step_startAgent: "proc_step s (startAgent e s)"
proof (cases "proc s")
  case None
  from startAgent_outcome [OF this, of e] None show ?thesis
    by (auto simp: proc_step_def started_def)
next
  case (Some p)
  then show ?thesis
    by (simp add: startAgent_unfold notify_def proc_step_def)
qed

lemma proc_step_stopAgent: "proc_step s (stopAgent e s)"
  by (auto simp: stopAgent_def set_idle_def proc_step_def Let_def split: option.splits)

lemma proc_step_handlers:
  "proc_step s (on_error c err s)" "proc_step s (on_close c code s)"
  "proc_step s (on_data d s)" "proc_step s (timer_fires s)" "proc_step s (appendLine l s)"
  by (auto simp: on_error_def on_close_def on_data_def timer_fires_def appendLine_def
      set_idle_def proc_step_def Let_def split: option.splits)

lemma proc_step_step: "proc_step s (step ev s)"
proof (cases ev)
  case (ConfigChanged e)
  have "proc_step s (restartAgent e (appendLine l s))" for l
    unfolding restartAgent_def
    by (blast intro: proc_step_trans proc_step_handlers proc_step_stopAgent
        proc_step_startAgent)
  moreover have "proc_step s s"
    by (simp add: proc_step_def)
  ultimately show ?thesis
    using ConfigChanged by (simp add: step_def onChange_def Let_def)
qed (auto simp: step_def deactivate_def proc_step_startAgent proc_step_stopAgent
      proc_step_handlers proc_step_untouched untouched_runOnce untouched_installOrUpdate
      proc_step_def [of s s])

lemma run_Cons: "run (ev # evs) s = run evs (step ev s)"
  by (simp add: run_def)

lemma run_Nil: "run [] s = s"
  by (simp add: run_def)

section \<open>Supervisor: invariants of every run\<close>

lemma handles_ok_step:
  assumes "handles_ok s"
  shows "handles_ok (step ev s)"
proof -
  have p: "proc_step s (step ev s)"
    by (rule proc_step_step)
  then have n: "next_child s \<le> next_child (step ev s)"
    by (simp add: proc_step_def)
  from p consider "proc (step ev s) = proc s" | "proc (step ev s) = None"
    | k where "k < next_child (step ev s)" "proc (step ev s) = Some k"
    by (auto simp: proc_step_def)
  then show ?thesis
  proof cases
    case 1
    with assms n show ?thesis
      by (auto simp: handles_ok_def split: option.splits)
  qed (simp_all add: handles_ok_def)
qed

lemma handles_ok_run: "handles_ok s \<Longrightarrow> handles_ok (run evs s)"
  by (induction evs arbitrary: s) (simp_all add: run_Nil run_Cons handles_ok_step)

lemma handles_ok_activated: "handles_ok (activated st)"
  by (simp add: handles_ok_def activated_def)

lemma status_ok_startAgent:
  assumes "status_ok s"
  shows "status_ok (startAgent e s)"
proof (cases "proc s")
  case None
  with assms have "status s = idle_status"
    by (simp add: status_ok_def)
  with startAgent_outcome [OF None, of e] show ?thesis
    by (auto simp: status_ok_def started_def)
next
  case (Some p)
  with assms show ?thesis
    by (simp add: startAgent_unfold notify_def status_ok_def)
qed

lemma status_ok_stopAgent: "status_ok s \<Longrightarrow> status_ok (stopAgent e s)"
  by (auto simp: stopAgent_def set_idle_def status_ok_def Let_def split: option.splits)

lemma status_ok_untouched: "status_ok s \<Longrightarrow> untouched s s' \<Longrightarrow> status_ok s'"
  by (simp add: status_ok_def untouched_def)

lemma status_ok_handlers:
  assumes "status_ok s"
  shows "status_ok (on_error c err s)" "status_ok (on_close c code s)"
    "status_ok (on_data d s)" "status_ok (timer_fires s)" "status_ok (appendLine l s)"
  using assms
  by (auto simp: on_error_def on_close_def on_data_def timer_fires_def appendLine_def
      set_idle_def status_ok_def Let_def split: option.splits)

lemma status_ok_step:
  assumes "status_ok s"
  shows "status_ok (step ev s)"
proof (cases ev)
  case (ConfigChanged e)
  have "status_ok (restartAgent e (appendLine l s))" for l
    unfolding restartAgent_def
    by (intro status_ok_startAgent status_ok_stopAgent status_ok_handlers assms)
  with assms ConfigChanged show ?thesis
    by (simp add: step_def onChange_def Let_def)
next
  case (RunOnce e)
  with status_ok_untouched [OF assms untouched_runOnce] show ?thesis
    by (simp add: step_def)
next
  case (InstallOrUpdate e)
  with status_ok_untouched [OF assms untouched_installOrUpdate] show ?thesis
    by (simp add: step_def)
qed (use assms in \<open>auto simp: step_def deactivate_def status_ok_startAgent status_ok_stopAgent
      status_ok_handlers\<close>)

lemma status_ok_run: "status_ok s \<Longrightarrow> status_ok (run evs s)"
  by (induction evs arbitrary: s) (simp_all add: run_Nil run_Cons status_ok_step)

lemma status_ok_activated: "status_ok (activated st)"
  by (simp add: status_ok_def activated_def)

text \<open>
  A child that is not tracked and whose handle has been given out is never tracked
  later: new tracked children get new handles.
\<close>

lemma untracked_step:
  assumes "c < next_child s" and "proc s \<noteq> Some c"
  shows "c < next_child (step ev s) \<and> proc (step ev s) \<noteq> Some c"
proof -
  have p: "proc_step s (step ev s)"
    by (rule proc_step_step)
  then have n: "next_child s \<le> next_child (step ev s)"
    by (simp add: proc_step_def)
  from p consider "proc (step ev s) = proc s" | "proc (step ev s) = None"
    | k where "next_child s \<le> k" "proc (step ev s) = Some k"
    by (auto simp: proc_step_def)
  then have "proc (step ev s) \<noteq> Some c"
    using assms by cases auto
  with assms(1) n show ?thesis by simp
qed

lemma untracked_run:
  "c < next_child s \<Longrightarrow> proc s \<noteq> Some c \<Longrightarrow>
   c < next_child (run evs s) \<and> proc (run evs s) \<noteq> Some c"
proof (induction evs arbitrary: s)
  case Nil
  then show ?case by (simp add: run_Nil)
next
  case (Cons ev evs)
  from untracked_step [OF Cons.prems, of ev] Cons.IH [of "step ev s"]
  show ?case by (simp add: run_Cons)
qed

lemma handler_other_child:
  assumes "proc s \<noteq> Some c"
  shows "proc (on_error c err s) = proc s" "status (on_error c err s) = status s"
    "proc (on_close c code s) = proc s" "status (on_close c code s) = status s"
  using assms by (simp_all add: on_error_def on_close_def appendLine_def Let_def)

lemma handler_tracked_child:
  assumes "proc s = Some c"
  shows "proc (on_error c err s) = None" "status (on_error c err s) = idle_status"
    "proc (on_close c code s) = None" "status (on_close c code s) = idle_status"
  using assms by (simp_all add: on_error_def on_close_def appendLine_def set_idle_def Let_def)

text \<open>
  The tracked child is never one whose \<open>error\<close> or \<open>close\<close> listener has already run.
\<close>

lemma tracked_not_terminated_gen:
  assumes "\<forall>d\<in>D. d < next_child s" and "\<forall>p. proc s = Some p \<longrightarrow> p \<notin> D"
  shows "\<forall>p. proc (run evs s) = Some p \<longrightarrow> p \<notin> D \<union> set (terminated evs s)"
  using assms
proof (induction evs arbitrary: s D)
  case Nil
  then show ?case by (simp add: run_Nil)
next
  case (Cons ev evs)
  let ?h = "case ev of
              ProcError child err \<Rightarrow> (if child < next_child s then [child] else [])
            | ProcClose child code \<Rightarrow> (if child < next_child s then [child] else [])
            | _ \<Rightarrow> []"
  let ?D = "D \<union> set ?h"
  have p: "proc_step s (step ev s)"
    by (rule proc_step_step)
  then have n: "next_child s \<le> next_child (step ev s)"
    by (simp add: proc_step_def)
  have h_lt: "\<forall>d\<in>set ?h. d < next_child s"
    by (cases ev) auto
  have a1: "\<forall>d\<in>?D. d < next_child (step ev s)"
    using Cons.prems(1) h_lt n by fastforce
  have h_un: "\<forall>d\<in>set ?h. proc (step ev s) \<noteq> Some d"
    by (cases ev)
       (auto simp: step_def on_error_def on_close_def appendLine_def set_idle_def Let_def)
  have d_un: "\<forall>q. proc (step ev s) = Some q \<longrightarrow> q \<notin> D"
  proof (intro allI impI)
    fix q assume q: "proc (step ev s) = Some q"
    from p consider "proc (step ev s) = proc s" | "proc (step ev s) = None"
      | k where "next_child s \<le> k" "proc (step ev s) = Some k"
      by (auto simp: proc_step_def)
    then show "q \<notin> D"
    proof cases
      case 1
      with q Cons.prems(2) show ?thesis by simp
    next
      case 2
      with q show ?thesis by simp
    next
      case 3
      with q Cons.prems(1) show ?thesis by auto
    qed
  qed
  have a2: "\<forall>q. proc (step ev s) = Some q \<longrightarrow> q \<notin> ?D"
    using h_un d_un by auto
  from Cons.IH [OF a1 a2]
  have "\<forall>q. proc (run evs (step ev s)) = Some q \<longrightarrow>
          q \<notin> ?D \<union> set (terminated evs (step ev s))" .
  then show ?case
    by (simp add: run_Cons Un_assoc)
qed

lemma tracked_not_terminated:
  "proc (run evs (activated st)) = Some p \<Longrightarrow> p \<notin> set (terminated evs (activated st))"
  using tracked_not_terminated_gen [of "{}" "activated st" evs] by simp

text \<open>
  Claim C9. An \<open>error\<close> or \<open>close\<close> event of the tracked child, and every stop request
  on a tracked child, whatever the platform and whether or not the signalling call
  throws, clear the tracked reference and set the idle status; a stop with nothing
  tracked changes nothing. The \<open>catch\<close> block of a start clears the reference and sets
  the idle status in whatever state it is entered, and adds the error notice; a start
  whose \<open>try\<close> block throws ends in exactly that block, whatever the status item said
  before; and a \<open>spawn\<close> that throws, in compose mode or with a user path, does make
  the \<open>try\<close> block throw. A start from the idle state whose \<open>spawn\<close> throws leaves the
  reference clear and the status idle on every path. In every state reached from
  activation the status item agrees with the reference, and a tracked child is one
  that has been spawned and whose \<open>error\<close> or \<open>close\<close> listener has not run.
\<close>

theorem tracked_reference_never_set_but_dead:
  "(proc s = Some c \<longrightarrow>
      proc (on_error c err s) = None \<and> status (on_error c err s) = idle_status
      \<and> proc (on_close c code s) = None \<and> status (on_close c code s) = idle_status)
   \<and> (proc s \<noteq> None \<longrightarrow> proc (stopAgent e s) = None \<and> status (stopAgent e s) = idle_status)
   \<and> (proc s = None \<longrightarrow> stopAgent e s = s)
   \<and> (proc s = None \<and> status s = idle_status \<and> spawn_throws e \<noteq> None \<longrightarrow>
        proc (startAgent e s) = None \<and> status (startAgent e s) = idle_status)
   \<and> status_ok (run evs (activated st))
   \<and> (\<forall>p. proc (run evs (activated st)) = Some p \<longrightarrow>
          p < next_child (run evs (activated st))
          \<and> p \<notin> set (terminated evs (activated st)))
   \<and> proc (start_catch x u) = None \<and> status (start_catch x u) = idle_status
   \<and> notices (start_catch x u) = notices u @ [Error (''Expose: failed to start: '' @ message x)]
   \<and> (proc s = None \<and> fst (start_attempt e s) = Inl x \<longrightarrow>
        startAgent e s = start_catch x (snd (start_attempt e s))
        \<and> proc (startAgent e s) = None \<and> status (startAgent e s) = idle_status
        \<and> last (notices (startAgent e s)) = Error (''Expose: failed to start: '' @ message x))
   \<and> (spawn_throws e = Some m
        \<and> (composeFile_of (cfg e) f \<noteq> []
            \<or> userPath_of (cfg e) f \<noteq> [] \<and> resolveVars e (userPath_of (cfg e) f) \<noteq> []) \<longrightarrow>
        fst (start_try e f cwd pw t) = Inl (Thrown m))"
proof (intro conjI impI allI)
  show "proc (stopAgent e s) = None"
    by (rule proc_stopAgent)
  show "status (stopAgent e s) = idle_status" if "proc s \<noteq> None"
    using that by (auto simp: stopAgent_def set_idle_def Let_def)
  show "stopAgent e s = s" if "proc s = None"
    using that by (simp add: stopAgent_def)
  show "status_ok (run evs (activated st))"
    by (rule status_ok_run [OF status_ok_activated])
  show "p < next_child (run evs (activated st))" if "proc (run evs (activated st)) = Some p" for p
    using handles_ok_run [OF handles_ok_activated, of evs st] that
    by (simp add: handles_ok_def)
  show "p \<notin> set (terminated evs (activated st))" if "proc (run evs (activated st)) = Some p" for p
    using that by (rule tracked_not_terminated)
  show "proc (start_catch x u) = None" "status (start_catch x u) = idle_status"
    "notices (start_catch x u) = notices u @ [Error (''Expose: failed to start: '' @ message x)]"
    by (simp_all add: start_catch_def notify_def Let_def)
next
  assume a: "proc s = None \<and> status s = idle_status \<and> spawn_throws e \<noteq> None"
  then obtain m where m: "spawn_throws e = Some m" by auto
  from startAgent_spawn_throws [OF _ m, of s] a
  show "proc (startAgent e s) = None" "status (startAgent e s) = idle_status"
    by auto
next
  assume a: "proc s = None \<and> fst (start_attempt e s) = Inl x"
  obtain r s3 where r: "start_attempt e s = (r, s3)"
    by (cases "start_attempt e s")
  with a have "r = Inl x" by simp
  with a r show c: "startAgent e s = start_catch x (snd (start_attempt e s))"
    by (simp add: startAgent_def)
  show "proc (startAgent e s) = None" "status (startAgent e s) = idle_status"
    "last (notices (startAgent e s)) = Error (''Expose: failed to start: '' @ message x)"
    unfolding c by (simp_all add: start_catch_def notify_def Let_def)
next
  assume a: "spawn_throws e = Some m
        \<and> (composeFile_of (cfg e) f \<noteq> []
            \<or> userPath_of (cfg e) f \<noteq> [] \<and> resolveVars e (userPath_of (cfg e) f) \<noteq> [])"
  show "fst (start_try e f cwd pw t) = Inl (Thrown m)"
  proof (cases "composeFile_of (cfg e) f \<noteq> []")
    case True
    with a show ?thesis
      by (simp add: start_try_def Let_def spawn_def and_then_def)
  next
    case False
    with a have "userPath_of (cfg e) f \<noteq> []" "resolveVars e (userPath_of (cfg e) f) \<noteq> []"
      by auto
    with a False show ?thesis
      by (simp add: start_try_def Let_def resolveBinary_def spawn_def and_then_def)
  qed
qed (simp_all add: handler_tracked_child)

section \<open>Concrete runs on the Linux machine\<close>

lemma linux_fields:
  "cfg linux_env = no_settings" "secret linux_env = None" "workspaceFolder linux_env = Some ''/ws''"
  "homedir linux_env = ''/home/u''" "platform linux_env = ''linux''" "binDir linux_env = ''/gs/bin''"
  "path_join linux_env = (\<lambda>d n. d @ ''/'' @ n)" "spawn_throws linux_env = None"
  "kill_throws linux_env = False" "showInputBox linux_env = None"
  by (simp_all add: linux_env_def)

lemma default_args:
  "buildArgsFromConfig no_settings no_file (getPassword None no_settings)
   = [''-s'', ''getexposed.io'', ''-p'', ''2200'', ''-ls'', ''localhost'', ''-lp'', ''7500'',
      ''-bp'', ''0'']"
  by (simp add: buildArgsFromConfig_def getPassword_def no_settings_def no_file_def
      field_defs value_defs)

lemma default_resolution:
  "trim (str_or (cfg_path no_settings) '''') = []" "userPath_of no_settings no_file = []"
  "composeFile_of no_settings no_file = []" "cwd_setting_of no_settings no_file = []"
  "trim (str_or (cfg_configFile no_settings) '''') = []"
  "truthy (nullish (fc_autoInstall no_file) (cfg_autoInstall no_settings)) = False"
  by (simp_all add: no_settings_def no_file_def field_defs value_defs)

lemma readExposeConfigFile_default:
  "cfg e = no_settings \<Longrightarrow> readExposeConfigFile e s = (None, s)"
  by (simp add: readExposeConfigFile_def default_resolution)

lemma resolveCwd_default:
  "cfg e = no_settings \<Longrightarrow> workspaceFolder e = Some ''/ws'' \<Longrightarrow> resolveCwd e no_file = ''/ws''"
  by (simp add: resolveCwd_def default_resolution str_or_def)

lemma resolveBinary_installed:
  assumes "cfg e = no_settings" and "platform e = ''linux''" and "binDir e = ''/gs/bin''"
    and "path_join e = (\<lambda>d n. d @ ''/'' @ n)" and "bin_store s = installed_store"
  shows "resolveBinary e no_file s = (Inr (Some ''/gs/bin/expose''), s)"
proof -
  have ex: "existsSync s (if platform e = ''win32'' then ''expose.exe'' else ''expose'')"
    using assms by (simp add: existsSync_def store_get_def installed_store_def)
  have np: "trim (str_or (cfg_path (cfg e)) '''') = []"
    using assms by (simp add: default_resolution)
  from ensureExpose_managed [OF np ex, of False] assms
  have "ensureExpose False e s = (Inr ''/gs/bin/expose'', s)"
    by simp
  then show ?thesis
    using assms by (simp add: resolveBinary_def default_resolution)
qed

lemma resolveBinary_nothing:
  assumes "cfg e = no_settings" and "fs_fails e Mkdir = None" and "bin_store s = None"
  shows "resolveBinary e no_file s = (Inr None, s\<lparr>bin_store := Some Map.empty\<rparr>)"
  using assms
  by (simp add: resolveBinary_def ensureExpose_def mkdir_recursive_def fs_call_def and_then_def
      existsSync_def store_get_def default_resolution)

text \<open>A start on the Linux machine with the binary installed and nothing tracked.\<close>

lemma startAgent_installed:
  assumes "proc s = None" and "bin_store s = installed_store"
  shows "startAgent linux_env s =
     s\<lparr>output_log := [''$ /gs/bin/expose -s getexposed.io -p 2200 -ls localhost -lp 7500 -bp 0''],
       effects := effects s @
         [SpawnProc (next_child s) ''/gs/bin/expose''
            [''-s'', ''getexposed.io'', ''-p'', ''2200'', ''-ls'', ''localhost'', ''-lp'', ''7500'',
             ''-bp'', ''0''] ''/ws''],
       next_child := Suc (next_child s), proc := Some (next_child s),
       status := running_status\<rparr>"
proof -
  let ?s2 = "s\<lparr>output_log := []\<rparr>"
  have rb: "resolveBinary linux_env no_file ?s2 = (Inr (Some ''/gs/bin/expose''), ?s2)"
    by (rule resolveBinary_installed) (simp_all add: linux_fields assms)
  show ?thesis
    using assms(1)
    by (simp add: startAgent_unfold readExposeConfigFile_default resolveCwd_default linux_fields
        nullish_or_def start_try_def default_resolution rb and_then_Inr default_args
        spawn_def appendLine_def)
qed

text \<open>The one-off run of \<open>--version\<close> on the same machine.\<close>

lemma runOnce_installed:
  assumes "bin_store s = installed_store"
  shows "runOnce oneoff_env s =
     (Inr (),
      s\<lparr>output_log := output_log s @
          [''$ /gs/bin/expose -s getexposed.io -p 2200 -ls localhost -lp 7500 -bp 0 --version''],
        effects := effects s @
          [SpawnProc (next_child s) ''/gs/bin/expose''
             [''-s'', ''getexposed.io'', ''-p'', ''2200'', ''-ls'', ''localhost'', ''-lp'', ''7500'',
              ''-bp'', ''0'', ''--version''] ''/ws''],
        next_child := Suc (next_child s)\<rparr>)"
proof -
  have f: "cfg oneoff_env = no_settings" "secret oneoff_env = None"
    "workspaceFolder oneoff_env = Some ''/ws''" "platform oneoff_env = ''linux''"
    "binDir oneoff_env = ''/gs/bin''" "path_join oneoff_env = (\<lambda>d n. d @ ''/'' @ n)"
    "spawn_throws oneoff_env = None" "showInputBox oneoff_env = Some ''--version''"
    by (simp_all add: oneoff_env_def linux_env_def)
  have rb: "resolveBinary oneoff_env no_file s = (Inr (Some ''/gs/bin/expose''), s)"
    by (rule resolveBinary_installed) (simp_all add: f assms)
  have sp: "trim ''--version'' = ''--version''"
    "split_ws [] ''--version'' = [''--version'']"
    by (simp_all add: trim_def is_ws_def split_ws.simps)
  show ?thesis
    by (simp add: runOnce_def readExposeConfigFile_default resolveCwd_default f
        nullish_or_def rb and_then_Inr default_args sp spawn_def appendLine_def)
qed

text \<open>
  After a restart the pending timer finds the newly started child in \<open>proc\<close>: child 0
  is stopped with \<open>SIGINT\<close>, child 1 is started, and the timer then kills child 1.
\<close>

lemma restart_escalation_hits_new_child:
  "effects (timer_fires (restartAgent linux_env (tracked_state\<lparr>bin_store := installed_store\<rparr>)))
   = [Kill 0 SIGINT, SetTimeout 1500,
      SpawnProc 1 ''/gs/bin/expose''
        [''-s'', ''getexposed.io'', ''-p'', ''2200'', ''-ls'', ''localhost'', ''-lp'', ''7500'',
         ''-bp'', ''0''] ''/ws'',
      Kill 1 SIGKILL]"
proof -
  let ?s = "tracked_state\<lparr>bin_store := installed_store\<rparr>"
  have st: "stopAgent linux_env ?s =
      set_idle (?s\<lparr>effects := effects ?s @ [Kill 0 SIGINT, SetTimeout 1500],
                   timers := Suc (timers ?s)\<rparr>)"
    by (rule stopAgent_signals) (simp_all add: tracked_state_def linux_fields)
  show ?thesis
    unfolding restartAgent_def st
    by (subst startAgent_installed)
       (simp_all add: set_idle_def tracked_state_def timer_fires_def)
qed

text \<open>
  The theorem of claim C9 at work: child 0 tracked and an event of it; a stop whose
  signalling call throws; the \<open>catch\<close> block entered with child 0 tracked; a start with
  \<open>expose.path\<close> set whose \<open>spawn\<close> throws, from the activated state and from a state
  whose status item says running; and the run of one start on the Linux machine,
  after which child 0 is tracked, spawned and not terminated.
\<close>

theorem tracked_reference_never_set_but_dead_witness:
  "proc tracked_state = Some 0
   \<and> proc (on_error 0 ''ENOENT'' tracked_state) = None
   \<and> status (on_close 0 (Some 1) tracked_state) = idle_status
   \<and> proc tracked_state \<noteq> None
   \<and> proc (stopAgent (linux_env\<lparr>kill_throws := True\<rparr>) tracked_state) = None
   \<and> status (stopAgent (linux_env\<lparr>kill_throws := True\<rparr>) tracked_state) = idle_status
   \<and> proc (activated None) = None \<and> status (activated None) = idle_status
   \<and> spawn_throws nospawn_env \<noteq> None
   \<and> stopAgent nospawn_env (activated None) = activated None
   \<and> proc (startAgent nospawn_env (activated None)) = None
   \<and> status (startAgent nospawn_env (activated None)) = idle_status
   \<and> proc (run [StartAgent linux_env] (activated installed_store)) = Some 0
   \<and> 0 < next_child (run [StartAgent linux_env] (activated installed_store))
   \<and> 0 \<notin> set (terminated [StartAgent linux_env] (activated installed_store))
   \<and> proc (start_catch (Thrown ''spawn EINVAL'') tracked_state) = None
   \<and> status (start_catch (Thrown ''spawn EINVAL'') tracked_state) = idle_status
   \<and> notices (start_catch (Thrown ''spawn EINVAL'') tracked_state)
       = [Error ''Expose: failed to start: spawn EINVAL'']
   \<and> spawn_throws path_nospawn_env = Some ''spawn EINVAL''
   \<and> userPath_of (cfg path_nospawn_env) no_file = ''/opt/expose''
   \<and> resolveVars path_nospawn_env (userPath_of (cfg path_nospawn_env) no_file) = ''/opt/expose''
   \<and> fst (start_attempt path_nospawn_env (activated None)) = Inl (Thrown ''spawn EINVAL'')
   \<and> proc (startAgent path_nospawn_env (activated None)) = None
   \<and> status (startAgent path_nospawn_env (activated None)) = idle_status
   \<and> last (notices (startAgent path_nospawn_env (activated None)))
       = Error ''Expose: failed to start: spawn EINVAL''
   \<and> proc unsynced_state = None \<and> status unsynced_state = running_status
   \<and> fst (start_attempt path_nospawn_env unsynced_state) = Inl (Thrown ''spawn EINVAL'')
   \<and> proc (startAgent path_nospawn_env unsynced_state) = None
   \<and> status (startAgent path_nospawn_env unsynced_state) = idle_status"
proof -
  have t: "proc tracked_state = Some 0" "notices tracked_state = []"
    by (simp_all add: tracked_state_def)
  have a: "proc (activated None) = None" "status (activated None) = idle_status"
    by (simp_all add: activated_def)
  have n: "spawn_throws nospawn_env \<noteq> None"
    by (simp add: nospawn_env_def)
  have r: "proc (run [StartAgent linux_env] (activated installed_store)) = Some 0"
    by (simp add: run_Cons run_Nil step_def startAgent_installed activated_def)
  have pf: "cfg path_nospawn_env = no_settings\<lparr>cfg_path := Some ''/opt/expose''\<rparr>"
    "spawn_throws path_nospawn_env = Some ''spawn EINVAL''"
    "workspaceFolder path_nospawn_env = Some ''/ws''"
    by (simp_all add: path_nospawn_env_def nospawn_env_def linux_env_def)
  have up: "userPath_of (cfg path_nospawn_env) no_file = ''/opt/expose''"
    by (simp add: pf no_settings_def no_file_def userPath_of_def value_defs)
  have rv: "resolveVars path_nospawn_env (userPath_of (cfg path_nospawn_env) no_file)
              = ''/opt/expose''"
    unfolding up by (simp add: resolveVars_def pf)
  have ra: "readExposeConfigFile path_nospawn_env s = (None, s)" for s
    by (simp add: readExposeConfigFile_def pf no_settings_def value_defs)
  have un: "proc unsynced_state = None" "status unsynced_state = running_status"
    by (simp_all add: unsynced_state_def)
  have msg: "message (Thrown ''spawn EINVAL'') = ''spawn EINVAL''"
    by (simp add: message_def)
  note T1 = tracked_reference_never_set_but_dead
    [where s = tracked_state and c = 0 and err = "''ENOENT''" and code = "Some 1"
       and e = "linux_env\<lparr>kill_throws := True\<rparr>" and evs = "[StartAgent linux_env]"
       and st = installed_store and x = "Thrown ''spawn EINVAL''" and u = tracked_state]
  note T2 = tracked_reference_never_set_but_dead
    [where s = "activated None" and c = 0 and err = "''ENOENT''" and code = "Some 1"
       and e = nospawn_env and evs = "[]" and st = None]
  note T3 = tracked_reference_never_set_but_dead
    [where s = "activated None" and e = path_nospawn_env and x = "Thrown ''spawn EINVAL''"
       and m = "''spawn EINVAL''" and f = no_file
       and cwd = "resolveCwd path_nospawn_env no_file"
       and pw = "getPassword (secret path_nospawn_env) (cfg path_nospawn_env)"
       and t = "(activated None)\<lparr>output_log := []\<rparr>"]
  note T4 = tracked_reference_never_set_but_dead
    [where s = unsynced_state and e = path_nospawn_env and x = "Thrown ''spawn EINVAL''"
       and m = "''spawn EINVAL''" and f = no_file
       and cwd = "resolveCwd path_nospawn_env no_file"
       and pw = "getPassword (secret path_nospawn_env) (cfg path_nospawn_env)"
       and t = "unsynced_state\<lparr>output_log := []\<rparr>"]
  from T1 t r have 1:
    "proc (on_error 0 ''ENOENT'' tracked_state) = None"
    "status (on_close 0 (Some 1) tracked_state) = idle_status"
    "proc (stopAgent (linux_env\<lparr>kill_throws := True\<rparr>) tracked_state) = None"
    "status (stopAgent (linux_env\<lparr>kill_throws := True\<rparr>) tracked_state) = idle_status"
    "0 < next_child (run [StartAgent linux_env] (activated installed_store))"
    "0 \<notin> set (terminated [StartAgent linux_env] (activated installed_store))"
    by simp_all
  from T1 t msg have 3:
    "proc (start_catch (Thrown ''spawn EINVAL'') tracked_state) = None"
    "status (start_catch (Thrown ''spawn EINVAL'') tracked_state) = idle_status"
    "notices (start_catch (Thrown ''spawn EINVAL'') tracked_state)
       = [Error ''Expose: failed to start: spawn EINVAL'']"
    by simp_all
  from T2 a n have 2:
    "stopAgent nospawn_env (activated None) = activated None"
    "proc (startAgent nospawn_env (activated None)) = None"
    "status (startAgent nospawn_env (activated None)) = idle_status"
    by simp_all
  from T3 pf up rv
  have "fst (start_try path_nospawn_env no_file (resolveCwd path_nospawn_env no_file)
               (getPassword (secret path_nospawn_env) (cfg path_nospawn_env))
               ((activated None)\<lparr>output_log := []\<rparr>)) = Inl (Thrown ''spawn EINVAL'')"
    by simp
  then have 4: "fst (start_attempt path_nospawn_env (activated None))
                  = Inl (Thrown ''spawn EINVAL'')"
    by (simp add: start_attempt_def ra nullish_or_def)
  from T3 a 4 msg have 5:
    "proc (startAgent path_nospawn_env (activated None)) = None"
    "status (startAgent path_nospawn_env (activated None)) = idle_status"
    "last (notices (startAgent path_nospawn_env (activated None)))
       = Error ''Expose: failed to start: spawn EINVAL''"
    by simp_all
  from T4 pf up rv
  have "fst (start_try path_nospawn_env no_file (resolveCwd path_nospawn_env no_file)
               (getPassword (secret path_nospawn_env) (cfg path_nospawn_env))
               (unsynced_state\<lparr>output_log := []\<rparr>)) = Inl (Thrown ''spawn EINVAL'')"
    by simp
  then have 6: "fst (start_attempt path_nospawn_env unsynced_state)
                  = Inl (Thrown ''spawn EINVAL'')"
    by (simp add: start_attempt_def ra nullish_or_def)
  from T4 un 6 have 7:
    "proc (startAgent path_nospawn_env unsynced_state) = None"
    "status (startAgent path_nospawn_env unsynced_state) = idle_status"
    by simp_all
  from t a n r pf up rv un 1 2 3 4 5 6 7 show ?thesis by simp
qed

section \<open>One-off runs\<close>

text \<open>
  Claim C10. \<open>runOnce\<close> leaves the tracked reference and the status item as they are.
  The \<open>error\<close> and \<open>close\<close> listeners of a child that is not the tracked one leave both
  as they are (so they change them only for the tracked child itself). And in every
  state reached from activation, a child spawned by \<open>runOnce\<close> is not the tracked
  process after any further events, so its \<open>error\<close> and \<open>close\<close> events leave the
  tracked reference and the status unchanged whenever they arrive.
\<close>

theorem runOnce_child_never_tracked:
  "proc (snd (runOnce e s)) = proc s \<and> status (snd (runOnce e s)) = status s
   \<and> (proc s \<noteq> Some c \<longrightarrow>
        proc (on_error c err s) = proc s \<and> status (on_error c err s) = status s
        \<and> proc (on_close c code s) = proc s \<and> status (on_close c code s) = status s)
   \<and> (next_child (run before (activated st)) \<le> c
        \<and> c < next_child (snd (runOnce e (run before (activated st)))) \<longrightarrow>
        proc (run later (snd (runOnce e (run before (activated st))))) \<noteq> Some c
        \<and> proc (on_error c err (run later (snd (runOnce e (run before (activated st))))))
            = proc (run later (snd (runOnce e (run before (activated st)))))
        \<and> status (on_error c err (run later (snd (runOnce e (run before (activated st))))))
            = status (run later (snd (runOnce e (run before (activated st)))))
        \<and> proc (on_close c code (run later (snd (runOnce e (run before (activated st))))))
            = proc (run later (snd (runOnce e (run before (activated st)))))
        \<and> status (on_close c code (run later (snd (runOnce e (run before (activated st))))))
            = status (run later (snd (runOnce e (run before (activated st))))))"
proof (intro conjI impI)
  show "proc (snd (runOnce e s)) = proc s" "status (snd (runOnce e s)) = status s"
    using untouched_runOnce [of s e] by (simp_all add: untouched_def)
next
  assume "proc s \<noteq> Some c"
  then show "proc (on_error c err s) = proc s" "status (on_error c err s) = status s"
    "proc (on_close c code s) = proc s" "status (on_close c code s) = status s"
    by (simp_all add: handler_other_child)
next
  let ?s0 = "run before (activated st)"
  let ?s1 = "snd (runOnce e ?s0)"
  let ?s2 = "run later ?s1"
  assume a: "next_child ?s0 \<le> c \<and> c < next_child ?s1"
  have "handles_ok ?s0"
    by (rule handles_ok_run [OF handles_ok_activated])
  with a have "proc ?s0 \<noteq> Some c"
    by (auto simp: handles_ok_def)
  with untouched_runOnce [of ?s0 e] have "proc ?s1 \<noteq> Some c"
    by (simp add: untouched_def)
  with a untracked_run [of c ?s1 later] show u: "proc ?s2 \<noteq> Some c"
    by simp
  from u show "proc (on_error c err ?s2) = proc ?s2" "status (on_error c err ?s2) = status ?s2"
    "proc (on_close c code ?s2) = proc ?s2" "status (on_close c code ?s2) = status ?s2"
    by (simp_all add: handler_other_child)
qed

text \<open>
  The theorem on the Linux machine: while child 0 is tracked, \<open>runOnce\<close> spawns child
  1; after a stop and a new start child 2 is tracked, and the exit of child 1 changes
  neither the tracked reference nor the status.
\<close>

theorem runOnce_child_never_tracked_witness:
  "proc tracked_state \<noteq> Some 1
   \<and> proc (on_close 1 (Some 0) tracked_state) = Some 0
   \<and> status (on_error 1 ''ENOENT'' tracked_state) = running_status
   \<and> next_child (run [StartAgent linux_env] (activated installed_store)) \<le> 1
   \<and> 1 < next_child (snd (runOnce oneoff_env (run [StartAgent linux_env]
                                                 (activated installed_store))))
   \<and> proc (run [StopAgent linux_env, StartAgent linux_env]
             (snd (runOnce oneoff_env (run [StartAgent linux_env] (activated installed_store)))))
       \<noteq> Some 1
   \<and> proc (on_close 1 (Some 0)
             (run [StopAgent linux_env, StartAgent linux_env]
                (snd (runOnce oneoff_env (run [StartAgent linux_env]
                                           (activated installed_store))))))
       = proc (run [StopAgent linux_env, StartAgent linux_env]
                (snd (runOnce oneoff_env (run [StartAgent linux_env]
                                           (activated installed_store)))))"
proof -
  let ?s0 = "run [StartAgent linux_env] (activated installed_store)"
  have t: "proc tracked_state \<noteq> Some 1" "proc tracked_state = Some 0"
    "status tracked_state = running_status"
    by (simp_all add: tracked_state_def)
  have s0: "next_child ?s0 = 1" "bin_store ?s0 = installed_store"
    by (simp_all add: run_Cons run_Nil step_def startAgent_installed activated_def)
  have s1: "next_child (snd (runOnce oneoff_env ?s0)) = 2"
    using s0 by (simp add: runOnce_installed)
  note T = runOnce_child_never_tracked
    [where s = tracked_state and c = 1 and err = "''ENOENT''" and code = "Some 0"
       and e = oneoff_env and before = "[StartAgent linux_env]" and st = installed_store
       and later = "[StopAgent linux_env, StartAgent linux_env]"]
  from T t s0 s1 show ?thesis by simp
qed

section \<open>Asset resolver: which asset is picked\<close>

lemma starts_with_refl: "starts_with s s"
  by (induction s) auto

lemma includes_str_refl: "includes_str s s"
  by (cases s) (simp_all add: starts_with_refl)

lemma find_unique:
  "x \<in> set xs \<Longrightarrow> P x \<Longrightarrow> (\<forall>y\<in>set xs. P y \<longrightarrow> y = x) \<Longrightarrow> find P xs = Some x"
proof (induction xs)
  case Nil
  then show ?case by simp
next
  case (Cons y ys)
  show ?case
  proof (cases "P y")
    case True
    with Cons.prems(3) have "y = x" by simp
    with True show ?thesis by simp
  next
    case False
    with Cons.prems(1,2) have "x \<in> set ys" by auto
    moreover have "\<forall>z\<in>set ys. P z \<longrightarrow> z = x"
      using Cons.prems(3) by simp
    ultimately have "find P ys = Some x"
      using Cons.IH Cons.prems(2) by blast
    with False show ?thesis by simp
  qed
qed

lemma find_hit_None_iff:
  "find_hit want as = None \<longleftrightarrow> (\<forall>d\<in>set as. \<not> includes_str (asset_name d) want)"
proof
  assume "find_hit want as = None"
  then have "find (\<lambda>a. includes_str (asset_name a) want) as = None"
    by (simp add: find_hit_def split: option.splits)
  then show "\<forall>d\<in>set as. \<not> includes_str (asset_name d) want"
    by (simp add: find_None_iff)
next
  assume n: "\<forall>d\<in>set as. \<not> includes_str (asset_name d) want"
  then have "\<forall>d\<in>set as. asset_name d \<noteq> want"
    using includes_str_refl by metis
  with n show "find_hit want as = None"
    by (simp add: find_hit_def find_None_iff split: option.splits)
qed

lemma find_hit_exact:
  assumes "x \<in> set as" and "asset_name x = want"
    and "\<forall>d\<in>set as. asset_name d = want \<longrightarrow> d = x"
  shows "find_hit want as = Some x"
proof -
  have "find (\<lambda>a. asset_name a = want) as = Some x"
  proof (rule find_unique)
    show "x \<in> set as" by (rule assms(1))
    show "asset_name x = want" by (rule assms(2))
    show "\<forall>y\<in>set as. asset_name y = want \<longrightarrow> y = x" by (rule assms(3))
  qed
  then show ?thesis by (simp add: find_hit_def)
qed

lemma find_hit_prefers_exact:
  assumes "\<exists>h\<in>set as. asset_name h = want"
  shows "\<exists>h. find_hit want as = Some h \<and> asset_name h = want"
proof -
  from assms have "find (\<lambda>a. asset_name a = want) as \<noteq> None"
    by (auto simp: find_None_iff)
  then obtain h where h: "find (\<lambda>a. asset_name a = want) as = Some h"
    by auto
  then have "asset_name h = want"
    by (auto simp: find_Some_iff)
  with h show ?thesis by (simp add: find_hit_def)
qed

lemma pick_loop_None_iff:
  "pick_loop cs as = None \<longleftrightarrow>
   (\<forall>c\<in>set cs. \<forall>d\<in>set as. \<not> includes_str (asset_name d) c)"
proof (induction cs)
  case Nil
  show ?case by simp
next
  case (Cons c cs)
  show ?case
  proof (cases "find_hit c as")
    case None
    then show ?thesis
      using Cons.IH find_hit_None_iff [of c as] by simp
  next
    case (Some h)
    then have "\<not> (\<forall>d\<in>set as. \<not> includes_str (asset_name d) c)"
      using find_hit_None_iff [of c as] by simp
    with Some show ?thesis by auto
  qed
qed

lemma pick_loop_skip:
  assumes "\<forall>c\<in>set pre. \<forall>d\<in>set as. \<not> includes_str (asset_name d) c"
  shows "pick_loop (pre @ rest) as = pick_loop rest as"
  using assms
proof (induction pre)
  case Nil
  show ?case by simp
next
  case (Cons c pre)
  then have "find_hit c as = None"
    by (simp add: find_hit_None_iff)
  with Cons show ?case by simp
qed

lemma pickAsset_None_iff:
  "pickAsset p a as = None \<longleftrightarrow>
   (\<forall>d\<in>set as. (\<forall>c\<in>set (candidates (osPart p) (archPart a)).
                    \<not> includes_str (asset_name d) c) \<and> \<not> broad_match p a d)"
proof (cases "pick_loop (candidates (osPart p) (archPart a)) as")
  case None
  then have "\<forall>c\<in>set (candidates (osPart p) (archPart a)).
               \<forall>d\<in>set as. \<not> includes_str (asset_name d) c"
    by (simp add: pick_loop_None_iff)
  moreover have "pickAsset p a as = find (broad_match p a) as"
    using None by (simp add: pickAsset_def broad_match_def [abs_def])
  ultimately show ?thesis
    by (auto simp: find_None_iff)
next
  case (Some h)
  then have "\<not> (\<forall>c\<in>set (candidates (osPart p) (archPart a)).
                 \<forall>d\<in>set as. \<not> includes_str (asset_name d) c)"
    using pick_loop_None_iff [of "candidates (osPart p) (archPart a)" as] by simp
  moreover have "pickAsset p a as \<noteq> None"
    using Some by (simp add: pickAsset_def)
  ultimately show ?thesis by blast
qed

text \<open>
  The asset whose name is a candidate is picked when it is the only one of that name
  and no asset name contains a candidate that is tried earlier.
\<close>

lemma pickAsset_named:
  assumes x: "x \<in> set as" and n: "asset_name x \<in> set (names_for p a)"
    and uniq: "\<forall>d\<in>set as. asset_name d = asset_name x \<longrightarrow> d = x"
    and clear: "\<forall>c\<in>set (earlier_candidates p a (asset_name x)).
                  \<forall>d\<in>set as. \<not> includes_str (asset_name d) c"
  shows "pickAsset p a as = Some x"
proof -
  from split_list_first [OF n] obtain pre rest
    where sp: "names_for p a = pre @ asset_name x # rest" and nin: "asset_name x \<notin> set pre"
    by blast
  have "takeWhile (\<lambda>c. c \<noteq> asset_name x) (pre @ asset_name x # rest) = pre"
    using nin by (induction pre) auto
  then have pre: "earlier_candidates p a (asset_name x) = pre"
    by (simp add: earlier_candidates_def sp)
  have "pick_loop (pre @ asset_name x # rest) as = pick_loop (asset_name x # rest) as"
    by (rule pick_loop_skip) (use clear pre in simp)
  also have "\<dots> = Some x"
    using find_hit_exact [OF x refl uniq] by simp
  finally have "pick_loop (candidates (osPart p) (archPart a)) as = Some x"
    using sp by (simp add: names_for_def)
  then show ?thesis
    by (simp add: pickAsset_def)
qed

text \<open>
  The names of the enumeration, by evaluation: the names of a pair are never decoy
  names, and for the architectures \<open>x64\<close> and \<open>arm64\<close> no name of the pair occurs inside
  another name of the enumeration.
\<close>

lemma all_disjoint_names: "list_all (\<lambda>(p, a). disjoint_names p a) supported"
  by code_simp

lemma all_no_clash: "list_all (\<lambda>(p, a). a \<noteq> ''arm'' \<longrightarrow> no_clash p a) supported"
  by code_simp

lemma supported_disjoint:
  assumes "(p, a) \<in> set supported" and "c \<in> set (names_for p a)"
  shows "c \<notin> set (decoy_names p a)"
proof -
  from all_disjoint_names assms(1) have "disjoint_names p a"
    by (auto simp: list_all_iff)
  with assms(2) show ?thesis
    by (auto simp: disjoint_names_def list_all_iff)
qed

lemma supported_no_clash:
  assumes "(p, a) \<in> set supported" and "a \<noteq> ''arm''" and "c \<in> set (names_for p a)"
    and "n \<in> set (names_for p a) \<union> set (decoy_names p a)" and "includes_str n c"
  shows "n = c"
proof -
  from all_no_clash assms(1,2) have "no_clash p a"
    by (auto simp: list_all_iff)
  with assms(3,4,5) show ?thesis
    by (auto simp: no_clash_def list_all_iff)
qed
text \<open>
  For \<open>arm\<close> the proviso holds whenever the list has no asset named
  \<open>expose_{os}_arm64\<close> or \<open>expose-{os}-arm64\<close>.
\<close>

lemma all_arm_clash_only: "list_all arm_clash_only [''win32'', ''darwin'', ''linux'']"
  by code_simp

lemma arm_clear_without_arm64:
  assumes sup: "(p, ''arm'') \<in> set supported" and x: "x \<in> set as"
    and n: "asset_name x \<in> set (names_for p ''arm'')"
    and dec: "\<forall>d\<in>set as. d \<noteq> x \<longrightarrow> asset_name d \<in> set (decoy_names p ''arm'')"
    and no64: "\<forall>d\<in>set as. asset_name d \<notin> set (arm64_lookalikes p)"
  shows "\<forall>c\<in>set (earlier_candidates p ''arm'' (asset_name x)).
           \<forall>d\<in>set as. \<not> includes_str (asset_name d) c"
proof (intro ballI notI)
  fix c d
  assume c: "c \<in> set (earlier_candidates p ''arm'' (asset_name x))"
    and d: "d \<in> set as" and i: "includes_str (asset_name d) c"
  from sup have "p \<in> set [''win32'', ''darwin'', ''linux'']"
    by (auto simp: supported_def)
  with all_arm_clash_only have ac: "arm_clash_only p"
    by (simp only: list_all_iff)
  from c have cn: "c \<in> set (names_for p ''arm'')" and cx: "c \<noteq> asset_name x"
    unfolding earlier_candidates_def by (auto dest: set_takeWhileD)
  have dn: "asset_name d \<in> set (names_for p ''arm'' @ decoy_names p ''arm'')"
    using d dec n by (cases "d = x") auto
  from ac cn dn i have "asset_name d = c \<or> asset_name d \<in> set (arm64_lookalikes p)"
    unfolding arm_clash_only_def list_all_iff by blast
  with no64 d have e: "asset_name d = c" by blast
  show False
  proof (cases "d = x")
    case True
    with e cx show False by simp
  next
    case False
    with d dec have "asset_name d \<in> set (decoy_names p ''arm'')" by simp
    with e supported_disjoint [OF sup cn] show False by simp
  qed
qed
text \<open>
  Claim C5, as stated, fails for the architecture \<open>arm\<close>, because \<open>expose_linux_arm\<close>
  is the beginning of \<open>expose_linux_arm64\<close>. On Linux/arm, with the one correctly named
  asset \<open>expose-linux-arm\<close> and the decoy \<open>expose_linux_arm64\<close> of the pair Linux/arm64,
  the first candidate \<open>expose_linux_arm\<close> has no exact match, is contained in the
  decoy's name, and the decoy is returned.
\<close>

theorem pickAsset_arm_picks_arm64_decoy:
  "(''linux'', ''arm'') \<in> set supported
   \<and> asset_name arm_asset \<in> set (names_for ''linux'' ''arm'')
   \<and> asset_name arm64_decoy \<in> set (decoy_names ''linux'' ''arm'')
   \<and> asset_name arm64_decoy \<notin> set (names_for ''linux'' ''arm'')
   \<and> pickAsset ''linux'' ''arm'' [arm_asset, arm64_decoy] = Some arm64_decoy
   \<and> pickAsset ''linux'' ''arm'' [arm64_decoy, arm_asset] = Some arm64_decoy
   \<and> arm64_decoy \<noteq> arm_asset"
  by (simp add: supported_def names_for_def decoy_names_def candidates_def osPart_def
      archPart_def pickAsset_def find_hit_def arm_asset_def arm64_decoy_def)

text \<open>
  Claim C5, amended. For a pair of the supported enumeration and a list that holds an
  asset named by one of the pair's three candidates, all other assets being named for
  other pairs, \<open>pickAsset\<close> returns that asset, whatever the order of the list, for the
  architectures \<open>x64\<close> and \<open>arm64\<close>; for \<open>arm\<close> it does so provided that no asset name
  contains a candidate that is tried before the asset's own name. For each candidate an
  exact match is preferred to a containing one. The result is none exactly when no
  asset name contains a candidate and no asset passes the last, broad test.
\<close>

theorem pickAsset_returns_named_asset:
  "((p, a) \<in> set supported \<and> x \<in> set as \<and> asset_name x \<in> set (names_for p a)
      \<and> (\<forall>d\<in>set as. d \<noteq> x \<longrightarrow> asset_name d \<in> set (decoy_names p a))
      \<and> (a = ''arm'' \<longrightarrow>
            (\<forall>c\<in>set (earlier_candidates p a (asset_name x)).
               \<forall>d\<in>set as. \<not> includes_str (asset_name d) c))
     \<longrightarrow> pickAsset p a as = Some x)
   \<and> ((\<exists>h\<in>set as. asset_name h = want) \<longrightarrow>
        (\<exists>h. find_hit want as = Some h \<and> asset_name h = want))
   \<and> (pickAsset p a as = None \<longleftrightarrow>
        (\<forall>d\<in>set as. (\<forall>c\<in>set (candidates (osPart p) (archPart a)).
                         \<not> includes_str (asset_name d) c) \<and> \<not> broad_match p a d))"
proof (intro conjI impI)
  assume h: "(p, a) \<in> set supported \<and> x \<in> set as \<and> asset_name x \<in> set (names_for p a)
      \<and> (\<forall>d\<in>set as. d \<noteq> x \<longrightarrow> asset_name d \<in> set (decoy_names p a))
      \<and> (a = ''arm'' \<longrightarrow>
            (\<forall>c\<in>set (earlier_candidates p a (asset_name x)).
               \<forall>d\<in>set as. \<not> includes_str (asset_name d) c))"
  then have sup: "(p, a) \<in> set supported" and x: "x \<in> set as"
    and n: "asset_name x \<in> set (names_for p a)"
    and dec: "\<forall>d\<in>set as. d \<noteq> x \<longrightarrow> asset_name d \<in> set (decoy_names p a)"
    by simp_all
  have uniq: "\<forall>d\<in>set as. asset_name d = asset_name x \<longrightarrow> d = x"
    using dec supported_disjoint [OF sup n] by metis
  have clear: "\<forall>c\<in>set (earlier_candidates p a (asset_name x)).
                 \<forall>d\<in>set as. \<not> includes_str (asset_name d) c"
  proof (cases "a = ''arm''")
    case True
    with h show ?thesis by blast
  next
    case False
    show ?thesis
    proof (intro ballI notI)
      fix c d
      assume c: "c \<in> set (earlier_candidates p a (asset_name x))"
        and d: "d \<in> set as" and i: "includes_str (asset_name d) c"
      from c have cn: "c \<in> set (names_for p a)" and cx: "c \<noteq> asset_name x"
        unfolding earlier_candidates_def
        by (auto dest: set_takeWhileD)
      have "asset_name d \<in> set (names_for p a) \<union> set (decoy_names p a)"
        using d dec n by (cases "d = x") auto
      from supported_no_clash [OF sup False cn this i] have e: "asset_name d = c" .
      show False
      proof (cases "d = x")
        case True
        with e cx show False by simp
      next
        case False
        with d dec have "asset_name d \<in> set (decoy_names p a)" by simp
        with e supported_disjoint [OF sup cn] show False by simp
      qed
    qed
  qed
  show "pickAsset p a as = Some x"
    by (rule pickAsset_named [OF x n uniq clear])
next
  assume "\<exists>h\<in>set as. asset_name h = want"
  then show "\<exists>h. find_hit want as = Some h \<and> asset_name h = want"
    by (rule find_hit_prefers_exact)
next
  show "pickAsset p a as = None \<longleftrightarrow>
        (\<forall>d\<in>set as. (\<forall>c\<in>set (candidates (osPart p) (archPart a)).
                         \<not> includes_str (asset_name d) c) \<and> \<not> broad_match p a d)"
    by (rule pickAsset_None_iff)
qed

text \<open>
  The theorem on Linux/arm with the asset \<open>expose-linux-arm\<close> between an x64 decoy and
  the arm64 decoy of the same naming scheme: the asset is returned; and on a list with
  the checksum file alone the result is none.
\<close>

theorem pickAsset_returns_named_asset_witness:
  "(''linux'', ''arm'') \<in> set supported
   \<and> arm_asset \<in> set [amd64_decoy, arm_asset, arm64_hyphen_decoy]
   \<and> asset_name arm_asset \<in> set (names_for ''linux'' ''arm'')
   \<and> asset_name amd64_decoy \<in> set (decoy_names ''linux'' ''arm'')
   \<and> asset_name arm64_hyphen_decoy \<in> set (decoy_names ''linux'' ''arm'')
   \<and> earlier_candidates ''linux'' ''arm'' (asset_name arm_asset) = [''expose_linux_arm'']
   \<and> pickAsset ''linux'' ''arm'' [amd64_decoy, arm_asset, arm64_hyphen_decoy] = Some arm_asset
   \<and> (\<exists>h. find_hit ''expose-linux-arm'' [amd64_decoy, arm_asset, arm64_hyphen_decoy] = Some h
            \<and> asset_name h = ''expose-linux-arm'')
   \<and> pickAsset ''linux'' ''arm'' [checksums] = None"
proof -
  let ?as = "[amd64_decoy, arm_asset, arm64_hyphen_decoy]"
  have 1: "(''linux'', ''arm'') \<in> set supported"
    by (simp add: supported_def)
  have 2: "arm_asset \<in> set ?as"
    by simp
  have 3: "asset_name arm_asset \<in> set (names_for ''linux'' ''arm'')"
    by (simp add: names_for_def candidates_def osPart_def archPart_def arm_asset_def)
  have 4: "\<forall>d\<in>set ?as. d \<noteq> arm_asset \<longrightarrow> asset_name d \<in> set (decoy_names ''linux'' ''arm'')"
    by (simp add: supported_def names_for_def decoy_names_def candidates_def osPart_def
        archPart_def amd64_decoy_def arm64_hyphen_decoy_def)
  have 5: "\<forall>c\<in>set (earlier_candidates ''linux'' ''arm'' (asset_name arm_asset)).
             \<forall>d\<in>set ?as. \<not> includes_str (asset_name d) c"
    by (simp add: earlier_candidates_def names_for_def candidates_def osPart_def archPart_def
        amd64_decoy_def arm64_hyphen_decoy_def arm_asset_def)
  have 6: "\<exists>h\<in>set ?as. asset_name h = ''expose-linux-arm''"
    by (simp add: arm_asset_def)
  have 7: "\<forall>d\<in>set [checksums].
         (\<forall>c\<in>set (candidates (osPart ''linux'') (archPart ''arm'')).
            \<not> includes_str (asset_name d) c) \<and> \<not> broad_match ''linux'' ''arm'' d"
    by (simp add: candidates_def osPart_def archPart_def checksums_def broad_match_def
        test_expose_i_def to_upper_def)
  note T = pickAsset_returns_named_asset
    [where p = "''linux''" and a = "''arm''" and x = arm_asset and as = ?as
       and want = "''expose-linux-arm''"]
  note U = pickAsset_returns_named_asset
    [where p = "''linux''" and a = "''arm''" and x = arm_asset and as = "[checksums]"
       and want = "''expose-linux-arm''"]
  from T 1 2 3 4 5 have 8: "pickAsset ''linux'' ''arm'' ?as = Some arm_asset"
    by blast
  from T 6 have 9: "\<exists>h. find_hit ''expose-linux-arm'' ?as = Some h
                      \<and> asset_name h = ''expose-linux-arm''"
    by blast
  from U 7 have 10: "pickAsset ''linux'' ''arm'' [checksums] = None"
    by blast
  have 11: "asset_name amd64_decoy \<in> set (decoy_names ''linux'' ''arm'')"
    "asset_name arm64_hyphen_decoy \<in> set (decoy_names ''linux'' ''arm'')"
    using 4 by (simp_all add: amd64_decoy_def arm64_hyphen_decoy_def arm_asset_def)
  have 12: "earlier_candidates ''linux'' ''arm'' (asset_name arm_asset) = [''expose_linux_arm'']"
    by (simp add: earlier_candidates_def names_for_def candidates_def osPart_def archPart_def
        arm_asset_def)
  from 1 2 3 8 9 10 11 12 show ?thesis
    by blast
qed

end
